theory Spec2Isabelle
  imports Complex_Main "HOL-Library.Multiset" "HOL-Library.Sublist"
begin

section \<open>Data model\<close>

text \<open>
  A photo as the provider client builds it in \<open>processPhotoList\<close>
  (\<open>SynologyPhotosClient.ts\<close>) and as the \<open>PhotoItem\<close> interface declares it.
  Optional fields are options; \<open>id\<close> is a number or a string, so it gets a type of
  its own (a JS \<open>Set\<close> tells the number 5 from the string "5"). Timestamps are
  integers (milliseconds).
\<close>

datatype ident = Num int | Str string

record PhotoItem =
  path :: string
  url :: "string option"
  created :: int
  modified :: int
  item_id :: "ident option"
  synologyId :: "int option"
  spaceId :: "int option"
  filePath :: "string option"
  personId :: "int option"

section \<open>Provider client: duplicate removal\<close>

text \<open>
  \<open>removeDuplicatePhotos\<close>: the key of a photo is \<open>photo.synologyId || photo.id\<close>
  (an absent or zero \<open>synologyId\<close> is falsy, then \<open>id\<close> is taken, whatever it is);
  the filter keeps a photo iff its key has not been seen, and records the key.
\<close>

definition dedupeKey :: "PhotoItem \<Rightarrow> ident option" where
  "dedupeKey photo =
     (case synologyId photo of
        Some n \<Rightarrow> if n \<noteq> 0 then Some (Num n) else item_id photo
      | None \<Rightarrow> item_id photo)"

fun filter_seen :: "ident option set \<Rightarrow> PhotoItem list \<Rightarrow> PhotoItem list" where
  "filter_seen seen [] = []"
| "filter_seen seen (photo # photos) =
     (if dedupeKey photo \<in> seen then filter_seen seen photos
      else photo # filter_seen (insert (dedupeKey photo) seen) photos)"

definition removeDuplicatePhotos :: "PhotoItem list \<Rightarrow> PhotoItem list" where
  "removeDuplicatePhotos photos = filter_seen {} photos"

text \<open>The composite identity of the specification: provider id and space id.\<close>

definition composite :: "PhotoItem \<Rightarrow> int option \<times> int option" where
  "composite photo = (synologyId photo, spaceId photo)"

definition photo :: "string \<Rightarrow> int \<Rightarrow> int \<Rightarrow> PhotoItem" where
  "photo p n s =
     \<lparr>path = p, url = None, created = 0, modified = 0, item_id = None,
      synologyId = Some n, spaceId = Some s, filePath = None, personId = None\<rparr>"

section \<open>JavaScript strings and arrays\<close>

text \<open>
  Strings are lists of characters. \<open>toLowerCase\<close> is modelled on ASCII letters,
  and \<open>a > b\<close> on two strings compares them code unit by code unit, the longer string
  being greater when one is a prefix of the other. \<open>trim\<close> removes white space (tab,
  line feed, vertical tab, form feed, carriage return, space) at both ends.
\<close>

definition toLowerChar :: "char \<Rightarrow> char" where
  "toLowerChar c =
     (let n = (of_char c :: nat) in if 65 \<le> n \<and> n \<le> 90 then char_of (n + 32) else c)"

definition toLowerCase :: "string \<Rightarrow> string" where
  "toLowerCase s = map toLowerChar s"

fun str_gt :: "string \<Rightarrow> string \<Rightarrow> bool" where
  "str_gt [] t = False"
| "str_gt (a # s) [] = True"
| "str_gt (a # s) (b # t) =
     (if (of_char b :: nat) < of_char a then True
      else if (of_char a :: nat) < of_char b then False
      else str_gt s t)"

definition is_space :: "char \<Rightarrow> bool" where
  "is_space c = ((of_char c :: nat) \<in> {9, 10, 11, 12, 13, 32})"

definition trim :: "string \<Rightarrow> string" where
  "trim s = rev (dropWhile is_space (rev (dropWhile is_space s)))"

text \<open>
  \<open>s.split(/\r?\n/u)\<close>: the text is cut at every line feed, and a carriage return
  right before the line feed belongs to the separator. \<open>cur\<close> holds the current piece,
  reversed.
\<close>

fun split_lines_from :: "string \<Rightarrow> string \<Rightarrow> string list" where
  "split_lines_from cur [] = [rev cur]"
| "split_lines_from cur (c # cs) =
     (if c = CHR 0x0A
      then rev (case cur of [] \<Rightarrow> [] | d # cur' \<Rightarrow> if d = CHR 0x0D then cur' else d # cur')
             # split_lines_from [] cs
      else split_lines_from (c # cur) cs)"

definition split_lines :: "string \<Rightarrow> string list" where
  "split_lines s = split_lines_from [] s"

text \<open>
  \<open>Array.prototype.sort(compare)\<close> is the engine's. On a comparator that is not
  consistent (one that answers \<open>-1\<close> both ways round for two elements) the language
  leaves the order to the engine; the model is the insertion that Node's engine
  performs: each element in turn goes before the first element of the sorted part
  that it compares below (\<open>compare(x, y) < 0\<close>), behind all others. On a consistent
  comparator this is the stable sort that the language prescribes.
\<close>

fun insert_sorted :: "('a \<Rightarrow> 'a \<Rightarrow> int) \<Rightarrow> 'a \<Rightarrow> 'a list \<Rightarrow> 'a list" where
  "insert_sorted cmp x [] = [x]"
| "insert_sorted cmp x (y # ys) =
     (if cmp x y < 0 then x # y # ys else y # insert_sorted cmp x ys)"

definition array_sort :: "('a \<Rightarrow> 'a \<Rightarrow> int) \<Rightarrow> 'a list \<Rightarrow> 'a list" where
  "array_sort cmp xs = foldl (\<lambda>sorted x. insert_sorted cmp x sorted) [] xs"

text \<open>
  The destructuring swap \<open>[a[i], a[j]] = [a[j], a[i]]\<close>: both reads come first, then
  \<open>a[i]\<close> and \<open>a[j]\<close> are written in this order. Both indices lie inside the array
  whenever the random numbers lie in \<open>[0, 1)\<close>, which is the contract of
  \<open>Math.random\<close> and a property of the seeded generator.
\<close>

definition swap :: "nat \<Rightarrow> nat \<Rightarrow> 'a list \<Rightarrow> 'a list" where
  "swap i j a = a[i := a ! j, j := a ! i]"

section \<open>List manager\<close>

text \<open>
  \<open>shuffleArray\<close>. The first loop draws from the generator seeded with
  \<open>Date.now()\<close>: \<open>seed = (seed * 9301 + 49297) % 233280\<close>, returning
  \<open>seed / 233280\<close>; the second loop draws from \<open>Math.random()\<close>, given here as the
  sequence \<open>rnd\<close> of its successive results. Both loops run \<open>i\<close> from
  \<open>length - 1\<close> down to 1 with \<open>j = Math.floor(r * (i + 1))\<close>. Numbers are real
  numbers in the model, where the program computes in double precision (which
  rounds the first product \<open>seed * 9301\<close> for a clock value of today); an empty
  array gives \<open>length - 1 = -1\<close> and no iteration, as does the truncated
  subtraction here.
\<close>

fun seeded_pass :: "nat \<Rightarrow> nat \<Rightarrow> 'a list \<Rightarrow> 'a list" where
  "seeded_pass 0 seed shuffled = shuffled"
| "seeded_pass (Suc i) seed shuffled =
     (let seed' = (seed * 9301 + 49297) mod 233280;
          j = nat \<lfloor>(real seed' / 233280) * real (Suc i + 1)\<rfloor>
      in seeded_pass i seed' (swap (Suc i) j shuffled))"

fun random_pass :: "nat \<Rightarrow> (nat \<Rightarrow> real) \<Rightarrow> 'a list \<Rightarrow> 'a list" where
  "random_pass 0 rnd shuffled = shuffled"
| "random_pass (Suc i) rnd shuffled =
     (let j = nat \<lfloor>rnd 0 * real (Suc i + 1)\<rfloor>
      in random_pass i (\<lambda>k. rnd (Suc k)) (swap (Suc i) j shuffled))"

definition shuffleArray :: "nat \<Rightarrow> (nat \<Rightarrow> real) \<Rightarrow> 'a list \<Rightarrow> 'a list" where
  "shuffleArray now rnd array =
     random_pass (length array - 1) rnd (seeded_pass (length array - 1) now array)"

text \<open>The three comparators and \<open>sortImageList\<close>.\<close>

definition sortByFilename :: "PhotoItem \<Rightarrow> PhotoItem \<Rightarrow> int" where
  "sortByFilename a b =
     (let aL = toLowerCase (path a); bL = toLowerCase (path b)
      in if str_gt aL bL then 1 else - 1)"

definition sortByCreated :: "PhotoItem \<Rightarrow> PhotoItem \<Rightarrow> int" where
  "sortByCreated a b = created a - created b"

definition sortByModified :: "PhotoItem \<Rightarrow> PhotoItem \<Rightarrow> int" where
  "sortByModified a b = modified a - modified b"

definition sortImageList :: "PhotoItem list \<Rightarrow> string \<Rightarrow> bool \<Rightarrow> PhotoItem list" where
  "sortImageList imageList sortBy sortDescending =
     (let sortedList =
        (if sortBy = ''created'' then array_sort sortByCreated imageList
         else if sortBy = ''modified'' then array_sort sortByModified imageList
         else array_sort sortByFilename imageList)
      in if sortDescending then rev sortedList else sortedList)"

text \<open>
  The manager's fields, together with the tracker file it owns
  (\<open>filesShownTracker.txt\<close>; \<open>None\<close> when the file does not exist). The options of
  the configuration that \<open>prepareImageList\<close> reads, and what the outside world
  contributes to one call: the clock, the random numbers, and whether reading or
  writing the tracker file fails.
\<close>

record ImageListManager =
  imageList :: "PhotoItem list"
  nextBatchList :: "PhotoItem list"
  alreadyShownSet :: "string set"
  index :: int
  currentBatchOffset :: int
  trackerFile :: "string option"

record ModuleConfig =
  showAllImagesBeforeRestart :: bool
  randomizeImageOrder :: bool
  sortImagesBy :: string
  sortImagesDescending :: bool

record world =
  date_now :: nat
  math_random :: "nat \<Rightarrow> real"
  tracker_read_fails :: bool
  tracker_write_fails :: bool

datatype js_error = TypeError

definition initial_manager :: ImageListManager where
  "initial_manager =
     \<lparr>imageList = [], nextBatchList = [], alreadyShownSet = {}, index = 0,
      currentBatchOffset = 0, trackerFile = None\<rparr>"

definition readShownImagesTracker :: "bool \<Rightarrow> string option \<Rightarrow> string set" where
  "readShownImagesTracker read_fails file =
     (case file of
        None \<Rightarrow> {}
      | Some filesShown \<Rightarrow>
          if read_fails then {}
          else set (filter (\<lambda>line. trim line \<noteq> []) (split_lines filesShown)))"

text \<open>
  \<open>resetShownImagesTracker\<close>: the file is written first; when that throws, the
  handler logs the error and the set is not cleared.
\<close>

definition resetShownImagesTracker :: "bool \<Rightarrow> ImageListManager \<Rightarrow> ImageListManager" where
  "resetShownImagesTracker write_fails s =
     (if write_fails then s else s\<lparr>trackerFile := Some [], alreadyShownSet := {}\<rparr>)"

definition prepareImageList ::
  "world \<Rightarrow> PhotoItem list \<Rightarrow> ModuleConfig \<Rightarrow> bool \<Rightarrow> ImageListManager
   \<Rightarrow> PhotoItem list \<times> ImageListManager" where
  "prepareImageList w images config isPreload s =
     (let workingList = images;
          s1 = (if showAllImagesBeforeRestart config
                then s\<lparr>alreadyShownSet :=
                         readShownImagesTracker (tracker_read_fails w) (trackerFile s)\<rparr>
                else s);
          imageListToUse =
            (if showAllImagesBeforeRestart config
             then filter (\<lambda>image. path image \<notin> alreadyShownSet s1) workingList
             else workingList);
          all_shown = (showAllImagesBeforeRestart config \<and> length imageListToUse = 0 \<and>
                       length workingList > 0 \<and> \<not> isPreload);
          s2 = (if all_shown then resetShownImagesTracker (tracker_write_fails w) s1 else s1);
          imageListToUse' = (if all_shown then workingList else imageListToUse);
          finalImageList =
            (if randomizeImageOrder config
             then shuffleArray (date_now w) (math_random w) imageListToUse'
             else sortImageList imageListToUse' (sortImagesBy config)
                    (sortImagesDescending config))
      in if isPreload then (finalImageList, s2\<lparr>nextBatchList := finalImageList\<rparr>)
         else (finalImageList, s2\<lparr>imageList := finalImageList, index := 0\<rparr>))"

text \<open>
  \<open>getNextImage\<close>. \<open>this.imageList[this.index++]\<close> reads the element and advances
  the cursor; the log line then reads \<open>image.path\<close>, which throws a \<open>TypeError\<close>
  when the read was outside the array (a negative cursor), the cursor staying
  advanced.
\<close>

definition getNextImage ::
  "ImageListManager \<Rightarrow> (js_error + PhotoItem option) \<times> ImageListManager" where
  "getNextImage s =
     (if length (imageList s) = 0 then (Inr None, s)
      else if index s \<ge> int (length (imageList s)) then (Inr None, s)
      else if index s < 0 then (Inl TypeError, s\<lparr>index := index s + 1\<rparr>)
      else (Inr (Some (imageList s ! nat (index s))), s\<lparr>index := index s + 1\<rparr>))"

definition areAllImagesShown :: "ImageListManager \<Rightarrow> bool" where
  "areAllImagesShown s = (index s \<ge> int (length (imageList s)))"

definition hasNextBatchPreloaded :: "ImageListManager \<Rightarrow> bool" where
  "hasNextBatchPreloaded s = (length (nextBatchList s) > 0)"

definition switchToNextBatch :: "ImageListManager \<Rightarrow> ImageListManager" where
  "switchToNextBatch s =
     (if length (nextBatchList s) > 0
      then s\<lparr>imageList := nextBatchList s, nextBatchList := [], index := 0\<rparr>
      else s)"

definition getPreviousImage ::
  "ImageListManager \<Rightarrow> (js_error + PhotoItem option) \<times> ImageListManager" where
  "getPreviousImage s =
     (let s1 = s\<lparr>index := index s - 2\<rparr>;
          s2 = (if index s1 < 0 then s1\<lparr>index := 0\<rparr> else s1)
      in getNextImage s2)"

definition reset :: "ImageListManager \<Rightarrow> ImageListManager" where
  "reset s = s\<lparr>index := 0\<rparr>"

text \<open>The cursor invariant: \<open>0 \<le> index \<le> imageList.length\<close>.\<close>

definition cursor_ok :: "ImageListManager \<Rightarrow> bool" where
  "cursor_ok s = (0 \<le> index s \<and> index s \<le> int (length (imageList s)))"


text \<open>Concrete configurations, worlds and manager states for the examples.\<close>

definition all_shown_config :: ModuleConfig where
  "all_shown_config =
     \<lparr>showAllImagesBeforeRestart = True, randomizeImageOrder = False,
      sortImagesBy = ''name'', sortImagesDescending = False\<rparr>"

definition calm_world :: world where
  "calm_world =
     \<lparr>date_now = 1700000000000, math_random = (\<lambda>k. 1 / 2),
      tracker_read_fails = False, tracker_write_fails = False\<rparr>"

definition readonly_world :: world where
  "readonly_world = calm_world\<lparr>tracker_write_fails := True\<rparr>"

definition shown_abc :: ImageListManager where
  "shown_abc = initial_manager\<lparr>trackerFile := Some ''a\<newline>b\<newline>c\<newline>''\<rparr>"

definition two_photos :: ImageListManager where
  "two_photos = initial_manager\<lparr>imageList := [photo ''a'' 1 0, photo ''b'' 2 0], index := 1\<rparr>"

section \<open>Cache store\<close>

text \<open>
  The cache directory is the list of its entries in the order \<open>readdir\<close> reports
  them; an entry has a name (its path is the directory joined with the name), a size
  in bytes, a modification time and the answer of \<open>stats.isFile()\<close>. The cache
  object holds the keys of its in-memory index (in insertion order), the running
  size total and the configured maximum; \<open>initialized\<close> says that \<open>cache\<close> and
  \<open>cacheDir\<close> are set. What can go wrong on the disk during one call is given by
  \<open>cache_faults\<close>.
\<close>

record dir_entry =
  fname :: string
  fsize :: int
  mtime :: int
  is_file :: bool

record ImageCache =
  initialized :: bool
  cache_keys :: "string list"
  currentCacheSize :: int
  maxCacheSize :: int
  disk :: "dir_entry list"

record cache_faults =
  readdir_fails :: bool
  stat_fails :: "string \<Rightarrow> bool"
  unlink_fails :: "string \<Rightarrow> bool"
  write_fails :: bool

definition endsWith :: "string \<Rightarrow> string \<Rightarrow> bool" where
  "endsWith s t = (length t \<le> length s \<and> drop (length s - length t) s = t)"

text \<open>
  The protection test of the eviction loop,
  \<open>name === 'photo_metadata.json' || name.endsWith('photo_metadata.json')\<close>, and the
  key of a file, \<open>name.replace(/\.(jpg|jpeg|png|heic|webp)$/i, '')\<close>.
\<close>

definition is_protected :: "string \<Rightarrow> bool" where
  "is_protected name =
     (name = ''photo_metadata.json'' \<or> endsWith name ''photo_metadata.json'')"

definition strip_extension :: "string \<Rightarrow> string" where
  "strip_extension name =
     (case filter (\<lambda>ext. endsWith (toLowerCase name) ext)
             [''.jpg'', ''.jpeg'', ''.png'', ''.heic'', ''.webp''] of
        [] \<Rightarrow> name
      | ext # _ \<Rightarrow> take (length name - length ext) name)"

text \<open>
  The loop of \<open>evictOldFiles\<close> over the sorted files: \<open>break\<close> once the running
  total is at most the target \<open>maxCacheSize * 0.9\<close> (a real number here, a double
  in the program), \<open>continue\<close> on a protected
  file, and on a failing \<open>unlink\<close> the handler logs and the loop goes on; otherwise
  the file is gone, its key leaves the index and its size leaves the running total.
\<close>

fun evict_loop :: "(string \<Rightarrow> bool) \<Rightarrow> dir_entry list \<Rightarrow> ImageCache \<Rightarrow> ImageCache" where
  "evict_loop failing [] c = c"
| "evict_loop failing (file # files) c =
     (if real_of_int (currentCacheSize c) \<le> real_of_int (maxCacheSize c) * (9 / 10) then c
      else if is_protected (fname file) then evict_loop failing files c
      else if failing (fname file) then evict_loop failing files c
      else evict_loop failing files
             (c\<lparr>disk := filter (\<lambda>f. fname f \<noteq> fname file) (disk c),
                cache_keys := removeAll (strip_extension (fname file)) (cache_keys c),
                currentCacheSize := currentCacheSize c - fsize file\<rparr>))"

text \<open>
  \<open>evictOldFiles\<close>: its guard, and the body of its \<open>try\<close>, which lists the
  directory, keeps the regular files whose \<open>stat\<close> succeeds, sorts them by
  modification time and runs the loop. An error of \<open>readdir\<close> ends the call in
  the outer handler.
\<close>

definition evict_body :: "cache_faults \<Rightarrow> ImageCache \<Rightarrow> ImageCache" where
  "evict_body faults c =
     (if readdir_fails faults then c
      else
        let fileStats = filter (\<lambda>f. \<not> stat_fails faults (fname f) \<and> is_file f) (disk c);
            sortedStats = array_sort (\<lambda>a b. mtime a - mtime b) fileStats
        in evict_loop (unlink_fails faults) sortedStats c)"

definition evictOldFiles :: "cache_faults \<Rightarrow> ImageCache \<Rightarrow> ImageCache" where
  "evictOldFiles faults c =
     (if currentCacheSize c \<le> maxCacheSize c \<or> \<not> initialized c then c
      else evict_body faults c)"

text \<open>
  \<open>set\<close>, for the key that \<open>getCacheKey\<close> derived and the length of the decoded
  buffer. The index drops its 100 oldest keys when it holds 1000 (so the insertion
  that follows cannot exceed the limit), the key is recorded, the file is written
  with the current time as its modification time (replacing a file of the same
  name), and the running total grows by the length. When the total then exceeds the
  maximum, \<open>set\<close> calls \<open>evictOldFiles\<close> and does not await it: the call passes its
  guard at once (the total exceeds the maximum, the cache is initialised), asks for the
  listing of the directory, and \<open>set\<close> returns. The second component of the result
  says that an eviction was started; the cache that \<open>set\<close> returns is the one before
  that eviction has deleted anything. The body of a started eviction, \<open>evict_body\<close>,
  runs later, on the cache as it is then. A failing write returns \<open>null\<close> with the
  key already recorded.
\<close>

definition cache_set_key :: "string \<Rightarrow> string list \<Rightarrow> string list" where
  "cache_set_key key keys = (if key \<in> set keys then keys else keys @ [key])"

definition set_cached ::
  "cache_faults \<Rightarrow> string \<Rightarrow> string \<Rightarrow> int \<Rightarrow> int \<Rightarrow> ImageCache
   \<Rightarrow> string option \<times> bool \<times> ImageCache" where
  "set_cached faults key fileExtension dataSize now c =
     (if \<not> initialized c then (None, False, c)
      else
        let name = key @ fileExtension;
            currentKeys = cache_keys c;
            keys1 = (if length currentKeys \<ge> 1000 then drop 100 currentKeys else currentKeys);
            c1 = c\<lparr>cache_keys := cache_set_key key keys1\<rparr>
        in if write_fails faults then (None, False, c1)
           else
             let c2 = c1\<lparr>disk := filter (\<lambda>f. fname f \<noteq> name) (disk c1)
                               @ [\<lparr>fname = name, fsize = dataSize, mtime = now, is_file = True\<rparr>],
                         currentCacheSize := currentCacheSize c1 + dataSize\<rparr>
             in (Some name, currentCacheSize c2 > maxCacheSize c2, c2))"

text \<open>Examples: an empty cache of 10 MB, a disk without faults, entries of 3 MB.\<close>

definition MB :: int where
  "MB = 1024 * 1024"

definition no_faults :: cache_faults where
  "no_faults =
     \<lparr>readdir_fails = False, stat_fails = (\<lambda>name. False), unlink_fails = (\<lambda>name. False),
      write_fails = False\<rparr>"

definition empty_cache :: ImageCache where
  "empty_cache =
     \<lparr>initialized = True, cache_keys = [], currentCacheSize = 0, maxCacheSize = 10 * MB,
      disk = []\<rparr>"

definition entry :: "string \<Rightarrow> int \<Rightarrow> dir_entry" where
  "entry key t = \<lparr>fname = key @ ''.jpg'', fsize = 3 * MB, mtime = t, is_file = True\<rparr>"

text \<open>
  The insertion of one entry of 3 MB: whether it started an eviction, and the cache
  it leaves. Two schedules of the five insertions of the scenario. In the first every
  started eviction runs to its end before the next insertion begins (\<open>settle\<close>); in
  the second no eviction gets to run before the fifth entry is written, and the two
  evictions that were started run after that, one after the other. An eviction that
  runs is not interleaved with an insertion or with another eviction.
\<close>

definition insert3 :: "string \<Rightarrow> int \<Rightarrow> ImageCache \<Rightarrow> bool \<times> ImageCache" where
  "insert3 key t c = snd (set_cached no_faults key ''.jpg'' (3 * MB) t c)"

definition settle :: "bool \<times> ImageCache \<Rightarrow> ImageCache" where
  "settle r = (if fst r then evict_body no_faults (snd r) else snd r)"

definition three_settled :: ImageCache where
  "three_settled =
     settle (insert3 ''k3'' 3 (settle (insert3 ''k2'' 2 (settle (insert3 ''k1'' 1 empty_cache)))))"

definition four_settled :: ImageCache where
  "four_settled = settle (insert3 ''k4'' 4 three_settled)"

definition fifth_written :: ImageCache where
  "fifth_written = snd (insert3 ''k5'' 5 four_settled)"

definition four_unsettled :: ImageCache where
  "four_unsettled =
     snd (insert3 ''k4'' 4 (snd (insert3 ''k3'' 3 (snd (insert3 ''k2'' 2
       (snd (insert3 ''k1'' 1 empty_cache)))))))"

definition five_unsettled :: ImageCache where
  "five_unsettled = snd (insert3 ''k5'' 5 four_unsettled)"

definition protected_cache :: ImageCache where
  "protected_cache =
     \<lparr>initialized = True, cache_keys = [''k1''], currentCacheSize = 13 * MB,
      maxCacheSize = 10 * MB,
      disk = [\<lparr>fname = ''photo_metadata.json'', fsize = 10 * MB, mtime = 0, is_file = True\<rparr>,
              entry ''k1'' 1]\<rparr>"

text \<open>
  Predicates of the eviction: the target \<open>currentCacheSize \<le> maxCacheSize * 0.9\<close>;
  a file the loop can delete (not protected, \<open>unlink\<close> succeeds); a directory entry
  that is a candidate for eviction (a regular file whose \<open>stat\<close> succeeds and that
  can be deleted); the cache with one file unlinked; the running total after the loop
  has gone through the files \<open>pre\<close>, and whether a total is above the target; the
  cache \<open>c'\<close> that results from \<open>c\<close> when the loop has gone through \<open>pre\<close>; and
  that the loop was still above the target whenever it turned to a file of \<open>pre\<close>.
\<close>

definition target_reached :: "ImageCache \<Rightarrow> bool" where
  "target_reached c =
     (real_of_int (currentCacheSize c) \<le> real_of_int (maxCacheSize c) * (9 / 10))"

definition deletable :: "(string \<Rightarrow> bool) \<Rightarrow> dir_entry \<Rightarrow> bool" where
  "deletable failing f = (\<not> is_protected (fname f) \<and> \<not> failing (fname f))"

definition candidate :: "cache_faults \<Rightarrow> dir_entry \<Rightarrow> bool" where
  "candidate faults g =
     (is_file g \<and> \<not> stat_fails faults (fname g) \<and> \<not> is_protected (fname g) \<and>
      \<not> unlink_fails faults (fname g))"

definition unlinked :: "dir_entry \<Rightarrow> ImageCache \<Rightarrow> ImageCache" where
  "unlinked x c =
     c\<lparr>disk := filter (\<lambda>f. fname f \<noteq> fname x) (disk c),
       cache_keys := removeAll (strip_extension (fname x)) (cache_keys c),
       currentCacheSize := currentCacheSize c - fsize x\<rparr>"

definition running_total :: "(string \<Rightarrow> bool) \<Rightarrow> dir_entry list \<Rightarrow> ImageCache \<Rightarrow> int" where
  "running_total failing pre c =
     currentCacheSize c - sum_list (map fsize (filter (deletable failing) pre))"

definition above_target :: "ImageCache \<Rightarrow> int \<Rightarrow> bool" where
  "above_target c bytes = (real_of_int (maxCacheSize c) * (9 / 10) < real_of_int bytes)"

definition evicted ::
  "(string \<Rightarrow> bool) \<Rightarrow> dir_entry list \<Rightarrow> ImageCache \<Rightarrow> ImageCache \<Rightarrow> bool" where
  "evicted failing pre c c' =
     (disk c' = filter (\<lambda>g. fname g \<notin> fname ` set (filter (deletable failing) pre)) (disk c) \<and>
      currentCacheSize c' = running_total failing pre c \<and>
      maxCacheSize c' = maxCacheSize c)"

definition needed :: "(string \<Rightarrow> bool) \<Rightarrow> dir_entry list \<Rightarrow> ImageCache \<Rightarrow> bool" where
  "needed failing pre c =
     (\<forall>i < length pre. above_target c (running_total failing (take i pre) c))"


section \<open>Metadata store\<close>

text \<open>
  The metadata database is a JSON file. What \<open>JSON.parse\<close> returns is cast to
  \<open>PhotoMetadataDatabase\<close> without a check, so the store may hold any JSON value:
  \<open>null\<close>, a boolean, a number, a string, an array, or an object with its
  properties. A property that is absent reads as \<open>undefined\<close>, which is \<open>None\<close>
  here.
\<close>

datatype json =
    JNull
  | JBool bool
  | JNum real
  | JStr string
  | JArr "json list"
  | JObj "string \<rightharpoonup> json"

type_synonym PhotoMetadataDatabase = json

text \<open>
  The operations of JavaScript on such a value, for a property name that is neither
  an array index, nor \<open>length\<close>, nor a property of a prototype; the keys of the
  database (two numerals joined by an underscore) and the field names of a record are
  such names. Reading a property of \<open>null\<close> throws a \<open>TypeError\<close>; a boolean, a
  number, a string and an array have no such property. Writing a property throws on
  \<open>null\<close> and (the module being strict code) on a boolean, a number and a string;
  an array takes the property, which \<open>JSON.stringify\<close> does not print, so the array
  counts as unchanged. A value is falsy when it is \<open>undefined\<close>, \<open>null\<close>,
  \<open>false\<close>, zero or the empty string.
\<close>

definition get_property :: "json \<Rightarrow> string \<Rightarrow> js_error + json option" where
  "get_property v name =
     (case v of
        JNull \<Rightarrow> Inl TypeError
      | JObj props \<Rightarrow> Inr (props name)
      | _ \<Rightarrow> Inr None)"

definition set_property :: "json \<Rightarrow> string \<Rightarrow> json \<Rightarrow> js_error + json" where
  "set_property v name x =
     (case v of
        JObj props \<Rightarrow> Inr (JObj (props(name \<mapsto> x)))
      | JArr items \<Rightarrow> Inr (JArr items)
      | _ \<Rightarrow> Inl TypeError)"

definition js_truthy :: "json option \<Rightarrow> bool" where
  "js_truthy v =
     (case v of
        None \<Rightarrow> False
      | Some JNull \<Rightarrow> False
      | Some (JBool b) \<Rightarrow> b
      | Some (JNum r) \<Rightarrow> r \<noteq> 0
      | Some (JStr t) \<Rightarrow> t \<noteq> []
      | Some (JArr items) \<Rightarrow> True
      | Some (JObj props) \<Rightarrow> True)"

text \<open>The property of a value that is not \<open>null\<close>.\<close>

definition property_of :: "json \<Rightarrow> string \<Rightarrow> json option" where
  "property_of v name = (case get_property v name of Inl error \<Rightarrow> None | Inr x \<Rightarrow> x)"

text \<open>
  The metadata extracted from a photo (\<open>ExifMetadata\<close> of \<open>ExifExtractor.ts\<close>; the
  fields carry the prefix \<open>exif\<close>). A string of the program's own is truthy when it
  is present and not empty.
\<close>

record ExifMetadata =
  exif_captureDate :: "string option"
  exif_captureTimestamp :: "int option"
  exif_latitude :: "real option"
  exif_longitude :: "real option"
  exif_location :: "string option"
  exif_FullAddress :: "string option"
  exif_ShortAddress :: "string option"
  exif_camera :: "string option"
  exif_iso :: "int option"
  exif_aperture :: "string option"
  exif_shutterSpeed :: "string option"
  exif_focalLength :: "string option"

definition truthy :: "string option \<Rightarrow> bool" where
  "truthy s = (case s of None \<Rightarrow> False | Some t \<Rightarrow> t \<noteq> [])"

text \<open>
  The key of a photo, \<open>`${synologyId}_${spaceId || 0}`\<close>: the two numbers in
  decimal, an absent space id and the space id 0 both printing as 0. The ids are
  integers, which a template prints digit by digit (below ten to the power 21 in magnitude).
\<close>

function nat_digits :: "nat \<Rightarrow> string" where
  "nat_digits n =
     (if n < 10 then [''0123456789'' ! n]
      else nat_digits (n div 10) @ [''0123456789'' ! (n mod 10)])"
  by pat_completeness auto

termination
  by (relation "measure (\<lambda>n. n)") auto

declare nat_digits.simps [simp del]

definition number_string :: "int \<Rightarrow> string" where
  "number_string i = (if i < 0 then CHR ''-'' # nat_digits (nat (- i)) else nat_digits (nat i))"

definition database_key :: "int \<Rightarrow> int option \<Rightarrow> string" where
  "database_key photoId space =
     number_string photoId @ ''_'' @ number_string (case space of None \<Rightarrow> 0 | Some n \<Rightarrow> n)"

text \<open>
  The functions of the platform that the store calls: \<open>JSON.parse\<close> (\<open>None\<close> when
  it throws), \<open>JSON.stringify\<close> and \<open>Number.parseFloat\<close> (\<open>None\<close> for \<open>NaN\<close>).
\<close>

record platform =
  JSON_parse :: "string \<Rightarrow> json option"
  JSON_stringify :: "json \<Rightarrow> string"
  parseFloat :: "string \<Rightarrow> real option"

text \<open>
  The file system maps a path to the content of the file there. Each operation can
  fail; a call is given which of its operations fail. A failed write or copy may
  leave anything at its destination (nothing, the old content, a part of the new
  content): the fault says what.
\<close>

type_synonym files = "string \<rightharpoonup> string"

datatype io_error = ENOENT | EIO

record save_faults =
  backup_access_fails :: bool
  backup_copy_fails :: bool
  backup_copy_leaves :: "string option"
  temp_write_fails :: bool
  temp_write_leaves :: "string option"
  rename_fails :: bool
  temp_unlink_fails :: bool

record load_faults =
  main_read_fails :: bool
  backup_read_fails :: bool
  restore_faults :: save_faults

definition readFile :: "bool \<Rightarrow> files \<Rightarrow> string \<Rightarrow> io_error + string" where
  "readFile fails fs p =
     (case fs p of None \<Rightarrow> Inl ENOENT | Some data \<Rightarrow> if fails then Inl EIO else Inr data)"

text \<open>
  \<open>saveMetadataDatabase\<close> in its three steps, for a call that runs with no other
  save of the same file under way. The backup: \<open>access\<close> and \<open>copyFile\<close> inside a
  handler that ignores every error. The write of the temporary file. Then the rename
  of the temporary file over the real path; when the write or the rename has thrown,
  the handler logs and unlinks the temporary file, ignoring an error of the unlink.
\<close>

definition save_backup :: "save_faults \<Rightarrow> string \<Rightarrow> files \<Rightarrow> files" where
  "save_backup faults p fs =
     (if fs p = None \<or> backup_access_fails faults then fs
      else if backup_copy_fails faults then fs(p @ ''.backup'' := backup_copy_leaves faults)
      else fs(p @ ''.backup'' := fs p))"

definition save_write :: "save_faults \<Rightarrow> string \<Rightarrow> string \<Rightarrow> files \<Rightarrow> files" where
  "save_write faults p jsonData fs =
     (if temp_write_fails faults then fs(p @ ''.tmp'' := temp_write_leaves faults)
      else fs(p @ ''.tmp'' \<mapsto> jsonData))"

definition save_cleanup :: "save_faults \<Rightarrow> string \<Rightarrow> files \<Rightarrow> files" where
  "save_cleanup faults p fs =
     (if fs (p @ ''.tmp'') = None \<or> temp_unlink_fails faults then fs
      else fs(p @ ''.tmp'' := None))"

definition save_rename :: "save_faults \<Rightarrow> string \<Rightarrow> files \<Rightarrow> files" where
  "save_rename faults p fs =
     (if temp_write_fails faults then save_cleanup faults p fs
      else if rename_fails faults then save_cleanup faults p fs
      else (fs(p := fs (p @ ''.tmp'')))(p @ ''.tmp'' := None))"

definition saveMetadataDatabase ::
  "platform \<Rightarrow> save_faults \<Rightarrow> string option \<Rightarrow> PhotoMetadataDatabase \<Rightarrow> files \<Rightarrow> files" where
  "saveMetadataDatabase pl faults metadataPath database fs =
     (case metadataPath of
        None \<Rightarrow> fs
      | Some p \<Rightarrow>
          save_rename faults p
            (save_write faults p (JSON_stringify pl database) (save_backup faults p fs)))"

text \<open>
  \<open>loadMetadataDatabase\<close>. The body of its outer \<open>try\<close> raises when the real file
  cannot be read; everything after a failed parse sits in handlers of its own. The
  outer handler returns the empty database \<open>{}\<close>, for \<open>ENOENT\<close> and for any other
  error. The result carries the files, since a database recovered from the backup is
  saved to the real path.
\<close>

definition load_from_backup ::
  "platform \<Rightarrow> load_faults \<Rightarrow> string \<Rightarrow> files \<Rightarrow> PhotoMetadataDatabase \<times> files" where
  "load_from_backup pl faults p fs =
     (case readFile (backup_read_fails faults) fs (p @ ''.backup'') of
        Inl error \<Rightarrow> (JObj Map.empty, fs)
      | Inr backupData \<Rightarrow>
          if trim backupData \<noteq> []
          then (case JSON_parse pl backupData of
                  Some backupDb \<Rightarrow>
                    (backupDb, saveMetadataDatabase pl (restore_faults faults) (Some p) backupDb fs)
                | None \<Rightarrow> (JObj Map.empty, fs))
          else (JObj Map.empty, fs))"

definition load_try ::
  "platform \<Rightarrow> load_faults \<Rightarrow> string \<Rightarrow> files
   \<Rightarrow> io_error + PhotoMetadataDatabase \<times> files" where
  "load_try pl faults p fs =
     (case readFile (main_read_fails faults) fs p of
        Inl error \<Rightarrow> Inl error
      | Inr data \<Rightarrow>
          if trim data = [] then Inr (JObj Map.empty, fs)
          else (case JSON_parse pl data of
                  Some database \<Rightarrow> Inr (database, fs)
                | None \<Rightarrow> Inr (load_from_backup pl faults p fs)))"

definition loadMetadataDatabase ::
  "platform \<Rightarrow> load_faults \<Rightarrow> string option \<Rightarrow> files
   \<Rightarrow> io_error + PhotoMetadataDatabase \<times> files" where
  "loadMetadataDatabase pl faults metadataPath fs =
     (case metadataPath of
        None \<Rightarrow> Inr (JObj Map.empty, fs)
      | Some p \<Rightarrow>
          (case load_try pl faults p fs of
             Inl error \<Rightarrow>
               if error = ENOENT then Inr (JObj Map.empty, fs) else Inr (JObj Map.empty, fs)
           | Inr result \<Rightarrow> Inr result))"

text \<open>
  \<open>parseLocation\<close>: the text is split at commas, the parts are trimmed, and exactly
  two parts that both parse as numbers give the coordinates. The function is also
  handed the \<open>location\<close> of a record read from the file: a value that is not a
  string has no method \<open>split\<close>, the call throws inside the \<open>try\<close> of
  \<open>parseLocation\<close>, and the result is \<open>null\<close>.
\<close>

fun split_from :: "char \<Rightarrow> string \<Rightarrow> string \<Rightarrow> string list" where
  "split_from sep cur [] = [rev cur]"
| "split_from sep cur (c # cs) =
     (if c = sep then rev cur # split_from sep [] cs else split_from sep (c # cur) cs)"

definition split_on :: "char \<Rightarrow> string \<Rightarrow> string list" where
  "split_on sep s = split_from sep [] s"

definition parseLocation :: "platform \<Rightarrow> json \<Rightarrow> (real \<times> real) option" where
  "parseLocation pl loc =
     (case loc of
        JStr t \<Rightarrow>
          (let parts = map trim (split_on (CHR '','') t)
           in if length parts \<noteq> 2 then None
              else (case parseFloat pl (parts ! 0) of
                      None \<Rightarrow> None
                    | Some lat \<Rightarrow>
                        (case parseFloat pl (parts ! 1) of
                           None \<Rightarrow> None
                         | Some lon \<Rightarrow> Some (lat, lon))))
      | _ \<Rightarrow> None)"

text \<open>
  The extractor's own state, and a task of its geocoding queue: the closure that
  \<open>enqueueGeocoding\<close> pushes is determined by its key and coordinates.
  \<open>enqueueGeocoding\<close> also starts \<open>processGeocodingQueue\<close>, which runs on its own
  from then on; the model keeps the two apart.
\<close>

record geo_task =
  task_key :: string
  task_lat :: real
  task_lon :: real

record ExifExtractor =
  metadataFilePath :: "string option"
  lastGeocodingRequestTime :: int
  geocodingQueue :: "geo_task list"
  isProcessingGeocodingQueue :: bool

definition enqueueGeocoding :: "string \<Rightarrow> real \<Rightarrow> real \<Rightarrow> ExifExtractor \<Rightarrow> ExifExtractor" where
  "enqueueGeocoding key lat lon x =
     x\<lparr>geocodingQueue := geocodingQueue x @ [\<lparr>task_key = key, task_lat = lat, task_lon = lon\<rparr>]\<rparr>"

definition geocode_location :: "platform \<Rightarrow> string \<Rightarrow> json \<Rightarrow> ExifExtractor \<Rightarrow> ExifExtractor" where
  "geocode_location pl key loc x =
     (case parseLocation pl loc of
        Some (lat, lon) \<Rightarrow> enqueueGeocoding key lat lon x
      | None \<Rightarrow> x)"

text \<open>
  The record that \<open>savePhotoMetadata\<close> builds for a new photo: the two ids, and the
  location and the capture date where the metadata has them (a property whose value
  is \<open>undefined\<close> reads as absent and is not printed).
\<close>

definition string_field :: "string \<Rightarrow> string option \<Rightarrow> (string \<rightharpoonup> json) \<Rightarrow> (string \<rightharpoonup> json)" where
  "string_field name v props = (case v of None \<Rightarrow> props | Some t \<Rightarrow> props(name \<mapsto> JStr t))"

definition new_entry :: "int \<Rightarrow> int option \<Rightarrow> ExifMetadata \<Rightarrow> json" where
  "new_entry photoId space metadata =
     JObj (string_field ''captureDate'' (exif_captureDate metadata)
            (string_field ''location'' (exif_location metadata)
              [''synologyId'' \<mapsto> JNum (of_int photoId),
               ''spaceId'' \<mapsto> (case space of None \<Rightarrow> JNull | Some n \<Rightarrow> JNum (of_int n))]))"

text \<open>
  \<open>savePhotoMetadata\<close>, for a call that runs with no other save of the same file
  under way. Nothing happens without a file path, and nothing when the metadata has
  neither a location nor a capture date. Everything else sits in a \<open>try\<close> whose
  handler logs: an error thrown by \<open>database[key]\<close> or by the assignment
  \<open>database[key] = entry\<close> ends the call with what was done until then. For a key
  whose value is truthy the only effect is the geocoding request, for a record with
  a truthy location that parses and without a truthy full address; otherwise the new
  record is stored under the key and the database is saved, and a location of the
  metadata that parses is sent to geocoding.
\<close>

definition savePhotoMetadata ::
  "platform \<Rightarrow> load_faults \<Rightarrow> save_faults \<Rightarrow> int \<Rightarrow> int option \<Rightarrow> ExifMetadata
   \<Rightarrow> ExifExtractor \<times> files \<Rightarrow> ExifExtractor \<times> files" where
  "savePhotoMetadata pl lf sf photoId space metadata state =
     (case state of (x, fs) \<Rightarrow>
        if metadataFilePath x = None then (x, fs)
        else if \<not> truthy (exif_location metadata) \<and> \<not> truthy (exif_captureDate metadata)
        then (x, fs)
        else
          (case loadMetadataDatabase pl lf (metadataFilePath x) fs of
             Inl error \<Rightarrow> (x, fs)
           | Inr (database, fs1) \<Rightarrow>
               let key = database_key photoId space
               in (case get_property database key of
                     Inl error \<Rightarrow> (x, fs1)
                   | Inr existingEntry \<Rightarrow>
                       if js_truthy existingEntry
                       then (case get_property (the existingEntry) ''location'' of
                               Inl error \<Rightarrow> (x, fs1)
                             | Inr loc \<Rightarrow>
                                 if js_truthy loc
                                 then (case get_property (the existingEntry) ''FullAddress'' of
                                         Inl error \<Rightarrow> (x, fs1)
                                       | Inr full \<Rightarrow>
                                           if \<not> js_truthy full
                                           then (geocode_location pl key (the loc) x, fs1)
                                           else (x, fs1))
                                 else (x, fs1))
                       else (case set_property database key (new_entry photoId space metadata) of
                               Inl error \<Rightarrow> (x, fs1)
                             | Inr stored \<Rightarrow>
                                 let fs2 = saveMetadataDatabase pl sf (metadataFilePath x) stored fs1
                                 in if truthy (exif_location metadata)
                                    then (geocode_location pl key
                                            (JStr (the (exif_location metadata))) x, fs2)
                                    else (x, fs2)))))"

text \<open>
  The geocoding tasks that a location gives rise to: one task when the location is
  truthy and parses, none otherwise.
\<close>

definition tasks_for :: "platform \<Rightarrow> string \<Rightarrow> json option \<Rightarrow> geo_task list" where
  "tasks_for pl key loc =
     (if js_truthy loc
      then (case parseLocation pl (the loc) of
              Some (lat, lon) \<Rightarrow> [\<lparr>task_key = key, task_lat = lat, task_lon = lon\<rparr>]
            | None \<Rightarrow> [])
      else [])"

text \<open>
  A sample platform, database and disk for the examples: the parser knows the
  serialisations of the empty database, of the sample database and of \<open>null\<close>.
\<close>

definition sample_text :: string where
  "sample_text = ''{7_0: {location: 51.121669, 13.772767, synologyId: 7, spaceId: 0}}''"

definition sample_entry :: json where
  "sample_entry =
     JObj [''synologyId'' \<mapsto> JNum 7, ''spaceId'' \<mapsto> JNum 0,
           ''location'' \<mapsto> JStr ''51.121669, 13.772767'']"

definition sample_db :: PhotoMetadataDatabase where
  "sample_db = JObj [''7_0'' \<mapsto> sample_entry]"

definition sample_platform :: platform where
  "sample_platform =
     \<lparr>JSON_parse = (\<lambda>s. if s = ''{}'' then Some (JObj Map.empty)
                        else if s = sample_text then Some sample_db
                        else if s = ''null'' then Some JNull else None),
      JSON_stringify = (\<lambda>v. case v of
                               JNull \<Rightarrow> ''null''
                             | JObj props \<Rightarrow> if props ''7_0'' = None then ''{}'' else sample_text
                             | _ \<Rightarrow> ''[]''),
      parseFloat = (\<lambda>s. if s = ''51.121669'' then Some (51121669 / 1000000)
                        else if s = ''13.772767'' then Some (13772767 / 1000000) else None)\<rparr>"

definition no_save_faults :: save_faults where
  "no_save_faults =
     \<lparr>backup_access_fails = False, backup_copy_fails = False, backup_copy_leaves = None,
      temp_write_fails = False, temp_write_leaves = None, rename_fails = False,
      temp_unlink_fails = False\<rparr>"

definition disk_full :: save_faults where
  "disk_full = no_save_faults\<lparr>temp_write_fails := True, temp_write_leaves := Some ''{7_0: {loc''\<rparr>"

definition no_load_faults :: load_faults where
  "no_load_faults =
     \<lparr>main_read_fails = False, backup_read_fails = False, restore_faults = no_save_faults\<rparr>"

definition db_path :: string where
  "db_path = ''photo_metadata.json''"

definition empty_db_disk :: files where
  "empty_db_disk = [db_path \<mapsto> ''{}'']"

definition blank_db_disk :: files where
  "blank_db_disk = [db_path \<mapsto> '' '', db_path @ ''.backup'' \<mapsto> sample_text]"

definition sample_db_disk :: files where
  "sample_db_disk = [db_path \<mapsto> sample_text]"

definition null_db_disk :: files where
  "null_db_disk = [db_path \<mapsto> ''null'']"

definition fresh_extractor :: ExifExtractor where
  "fresh_extractor =
     \<lparr>metadataFilePath = Some db_path, lastGeocodingRequestTime = 0, geocodingQueue = [],
      isProcessingGeocodingQueue = False\<rparr>"

definition no_exif :: ExifMetadata where
  "no_exif =
     \<lparr>exif_captureDate = None, exif_captureTimestamp = None, exif_latitude = None,
      exif_longitude = None, exif_location = None, exif_FullAddress = None,
      exif_ShortAddress = None, exif_camera = None, exif_iso = None, exif_aperture = None,
      exif_shutterSpeed = None, exif_focalLength = None\<rparr>"

definition truncated_db_disk :: files where
  "truncated_db_disk = [db_path \<mapsto> ''{7_0: {loc'', db_path @ ''.backup'' \<mapsto> sample_text]"

definition located_exif :: ExifMetadata where
  "located_exif = no_exif\<lparr>exif_location := Some ''51.121669, 13.772767''\<rparr>"

definition sample_task :: geo_task where
  "sample_task = \<lparr>task_key = ''7_0'', task_lat = 51121669 / 1000000, task_lon = 13772767 / 1000000\<rparr>"


section \<open>Saves that overlap\<close>

text \<open>
  \<open>saveMetadataDatabase\<close> is called from three places (the restore of a backup,
  \<open>savePhotoMetadata\<close>, and \<open>updatePhotoAddress\<close> in the geocoding queue), each
  in a flow of its own, and every call uses the same temporary path. Two calls can
  therefore be under way at once, each suspended at one of its \<open>await\<close>s. For this
  the file system keeps apart a name and the file it names: a path leads to a file
  number, a file number to a content. An open file is written through its number, also
  after the name has moved.

  The operations, none of which fails for a reason other than a missing file:
  \<open>open\<close> for writing truncates the file of that name or makes a new one; \<open>write\<close>
  puts the buffer at the start of the file; \<open>copyFile\<close> opens the destination and
  writes the content of the source (in one step here); \<open>rename\<close> gives the file a
  new name, which loses the file it named before; \<open>unlink\<close> removes the name.
\<close>

record vfs =
  names :: "string \<rightharpoonup> nat"
  contents :: "nat \<Rightarrow> string"
  next_inode :: nat

definition fs_read :: "vfs \<Rightarrow> string \<Rightarrow> string option" where
  "fs_read v p = map_option (contents v) (names v p)"

definition fs_open_truncate :: "string \<Rightarrow> vfs \<Rightarrow> nat \<times> vfs" where
  "fs_open_truncate p v =
     (case names v p of
        Some i \<Rightarrow> (i, v\<lparr>contents := (contents v)(i := [])\<rparr>)
      | None \<Rightarrow>
          (next_inode v,
           v\<lparr>names := (names v)(p \<mapsto> next_inode v),
             contents := (contents v)(next_inode v := []),
             next_inode := Suc (next_inode v)\<rparr>))"

definition fs_write :: "nat \<Rightarrow> string \<Rightarrow> vfs \<Rightarrow> vfs" where
  "fs_write fd buffer v =
     v\<lparr>contents := (contents v)(fd := buffer @ drop (length buffer) (contents v fd))\<rparr>"

definition fs_copyFile :: "string \<Rightarrow> string \<Rightarrow> vfs \<Rightarrow> vfs option" where
  "fs_copyFile src dest v =
     (case names v src of
        None \<Rightarrow> None
      | Some i \<Rightarrow>
          (case fs_open_truncate dest v of
             (fd, v') \<Rightarrow> Some (fs_write fd (contents v i) v')))"

definition fs_rename :: "string \<Rightarrow> string \<Rightarrow> vfs \<Rightarrow> vfs option" where
  "fs_rename src dest v =
     (case names v src of
        None \<Rightarrow> None
      | Some i \<Rightarrow> Some (v\<lparr>names := (names v)(dest \<mapsto> i, src := None)\<rparr>))"

definition fs_unlink :: "string \<Rightarrow> vfs \<Rightarrow> vfs option" where
  "fs_unlink p v =
     (case names v p of
        None \<Rightarrow> None
      | Some i \<Rightarrow> Some (v\<lparr>names := (names v)(p := None)\<rparr>))"

text \<open>
  One call of \<open>saveMetadataDatabase\<close> as a sequence of steps, one for each
  operation on the file system that the call awaits: \<open>access\<close>, \<open>copyFile\<close>,
  the \<open>open\<close> and the \<open>write\<close> inside \<open>writeFile\<close>, \<open>rename\<close>, and the
  \<open>unlink\<close> of the handler that a failed rename leads to. A failed \<open>access\<close> or
  \<open>copyFile\<close> is ignored. The state of a call is the operation it is to perform
  next, with the number of the file it has opened.
\<close>

datatype save_pc = AtAccess | AtCopyFile | AtOpen | AtWrite nat | AtRename | AtUnlink | Returned

record save_call =
  pc :: save_pc
  real_path :: string
  json_data :: string

definition save_step :: "save_call \<Rightarrow> vfs \<Rightarrow> save_call \<times> vfs" where
  "save_step s v =
     (let p = real_path s
      in case pc s of
           AtAccess \<Rightarrow>
             (if names v p = None then (s\<lparr>pc := AtOpen\<rparr>, v) else (s\<lparr>pc := AtCopyFile\<rparr>, v))
         | AtCopyFile \<Rightarrow>
             (case fs_copyFile p (p @ ''.backup'') v of
                None \<Rightarrow> (s\<lparr>pc := AtOpen\<rparr>, v)
              | Some v' \<Rightarrow> (s\<lparr>pc := AtOpen\<rparr>, v'))
         | AtOpen \<Rightarrow>
             (case fs_open_truncate (p @ ''.tmp'') v of
                (fd, v') \<Rightarrow> (s\<lparr>pc := AtWrite fd\<rparr>, v'))
         | AtWrite fd \<Rightarrow> (s\<lparr>pc := AtRename\<rparr>, fs_write fd (json_data s) v)
         | AtRename \<Rightarrow>
             (case fs_rename (p @ ''.tmp'') p v of
                None \<Rightarrow> (s\<lparr>pc := AtUnlink\<rparr>, v)
              | Some v' \<Rightarrow> (s\<lparr>pc := Returned\<rparr>, v'))
         | AtUnlink \<Rightarrow>
             (case fs_unlink (p @ ''.tmp'') v of
                None \<Rightarrow> (s\<lparr>pc := Returned\<rparr>, v)
              | Some v' \<Rightarrow> (s\<lparr>pc := Returned\<rparr>, v'))
         | Returned \<Rightarrow> (s, v))"

text \<open>
  Several calls on one file system: a schedule says which call performs its next step,
  and the run gives the state after each step. \<open>observed\<close> is what a reader finds at
  a path after each step.
\<close>

definition step_call :: "nat \<Rightarrow> save_call list \<times> vfs \<Rightarrow> save_call list \<times> vfs" where
  "step_call i state =
     (case state of (calls, v) \<Rightarrow>
        if i < length calls
        then (case save_step (calls ! i) v of (s', v') \<Rightarrow> (calls[i := s'], v'))
        else (calls, v))"

fun run_schedule :: "nat list \<Rightarrow> save_call list \<times> vfs \<Rightarrow> (save_call list \<times> vfs) list" where
  "run_schedule [] state = []"
| "run_schedule (i # rest) state = step_call i state # run_schedule rest (step_call i state)"

definition observed :: "string \<Rightarrow> (save_call list \<times> vfs) list \<Rightarrow> string option list" where
  "observed p trace = map (\<lambda>state. fs_read (snd state) p) trace"

text \<open>
  Examples: a disk with the database file only; two saves of it; a schedule in which
  the second save opens the temporary file after the first has written it and before
  the first renames it; and one call running alone. A file system is well formed when
  no two names lead to the same file and the next file number is unused. The last
  definition lists what can be read after each step of a call that runs alone.
\<close>

definition start_save :: "string \<Rightarrow> string \<Rightarrow> save_call" where
  "start_save p buffer = \<lparr>pc = AtAccess, real_path = p, json_data = buffer\<rparr>"

definition one_file_disk :: vfs where
  "one_file_disk = \<lparr>names = [db_path \<mapsto> 0], contents = (\<lambda>i. if i = 0 then ''{old}'' else []), next_inode = 1\<rparr>"

definition two_saves :: "save_call list" where
  "two_saves = [start_save db_path ''{first}'', start_save db_path ''{second}'']"

definition overlap :: "nat list" where
  "overlap = [0, 0, 0, 0, 1, 1, 1, 0, 1, 1, 1]"

definition alone :: "nat list" where
  "alone = [0, 0, 0, 0, 0, 0]"

definition wf_vfs :: "vfs \<Rightarrow> bool" where
  "wf_vfs v =
     (inj_on (names v) (dom (names v)) \<and> (\<forall>p i. names v p = Some i \<longrightarrow> i < next_inode v))"

definition alone_reads :: "string \<Rightarrow> string \<Rightarrow> files \<Rightarrow> files list" where
  "alone_reads p buffer fs =
     (let fs1 = (if fs p = None then fs else fs(p @ ''.backup'' := fs p));
          fs2 = fs1(p @ ''.tmp'' \<mapsto> []);
          fs3 = fs1(p @ ''.tmp'' \<mapsto> buffer);
          fs4 = (fs3(p \<mapsto> buffer))(p @ ''.tmp'' := None)
      in if fs p = None then [fs, fs2, fs3, fs4, fs4, fs4] else [fs, fs1, fs2, fs3, fs4, fs4])"


section \<open>Reverse geocoding\<close>

text \<open>
  What the geocoding service can answer to one request: a 4xx status, a response
  without data, a payload, or nothing usable (time-out, network error, 5xx status:
  the request throws). A payload may carry an error, a display name and a structured
  address. The world of the queue: the clock (\<open>Date.now()\<close>, in milliseconds), the
  times at which requests were issued, and the disk of the metadata database.
\<close>

record nominatim_address =
  city :: "string option"
  town :: "string option"
  village :: "string option"
  municipality :: "string option"
  county :: "string option"
  country :: "string option"

record nominatim_data =
  data_error :: bool
  display_name :: "string option"
  data_address :: "nominatim_address option"

datatype geo_response = ClientError | NoData | Data nominatim_data | Thrown

record geo_world =
  clock :: int
  nominatim_calls :: "int list"
  store :: files

definition geocodingRateLimitMs :: int where
  "geocodingRateLimitMs = 5000"

text \<open>\<open>a || b || ... || ''\<close> on optional strings: the first one that is truthy.\<close>

fun first_truthy :: "string option list \<Rightarrow> string" where
  "first_truthy [] = []"
| "first_truthy (s # ss) = (if truthy s then the s else first_truthy ss)"

definition short_address :: "string \<Rightarrow> nominatim_address option \<Rightarrow> string" where
  "short_address fullAddress addr =
     (let fromAddress =
            (case addr of
               None \<Rightarrow> []
             | Some a \<Rightarrow>
                 let cityName = first_truthy [city a, town a, village a, municipality a, county a];
                     countryName = first_truthy [country a]
                 in if cityName \<noteq> [] \<and> countryName \<noteq> [] then cityName @ '' - '' @ countryName
                    else if countryName \<noteq> [] then countryName
                    else if cityName \<noteq> [] then cityName
                    else []);
          shortened =
            (if fromAddress = [] \<and> fullAddress \<noteq> []
             then (let parts = filter (\<lambda>p. length p > 0)
                                 (map trim (split_on (CHR '','') fullAddress))
                   in if length parts \<ge> 2
                      then parts ! (length parts - 2) @ '' - '' @ parts ! (length parts - 1)
                      else if length parts = 1 then parts ! 0
                      else fullAddress)
             else fromAddress)
      in if shortened = [] then fullAddress else shortened)"

text \<open>
  \<open>reverseGeocode\<close>, given what the service answers to this request and after how
  many milliseconds. The function waits until 5000 ms have passed since
  \<open>lastGeocodingRequestTime\<close>, issues the request, and sets
  \<open>lastGeocodingRequestTime\<close> to the time of the answer on every path but one: a
  payload without error and without display name falls through to the final
  \<open>return null\<close>, which leaves the field as it was.
\<close>

definition reverseGeocode ::
  "int \<times> geo_response \<Rightarrow> ExifExtractor \<times> geo_world
   \<Rightarrow> (string \<times> string) option \<times> ExifExtractor \<times> geo_world" where
  "reverseGeocode reply state =
     (case state of (x, w) \<Rightarrow>
        let now = clock w;
            timeSinceLastRequest = now - lastGeocodingRequestTime x;
            w1 = (if timeSinceLastRequest < geocodingRateLimitMs
                  then w\<lparr>clock := clock w + (geocodingRateLimitMs - timeSinceLastRequest)\<rparr>
                  else w);
            w2 = w1\<lparr>nominatim_calls := nominatim_calls w1 @ [clock w1],
                     clock := clock w1 + fst reply\<rparr>;
            stamped = x\<lparr>lastGeocodingRequestTime := clock w2\<rparr>
        in (case snd reply of
              ClientError \<Rightarrow> (None, stamped, w2)
            | NoData \<Rightarrow> (None, stamped, w2)
            | Thrown \<Rightarrow> (None, stamped, w2)
            | Data d \<Rightarrow>
                if data_error d then (None, stamped, w2)
                else if truthy (display_name d)
                then (let fullAddress = trim (the (display_name d))
                      in (Some (fullAddress, short_address fullAddress (data_address d)),
                          stamped, w2))
                else (None, x, w2)))"

text \<open>
  \<open>updatePhotoAddress\<close>, for a call that runs with no other save of the same file
  under way: the record under the key, when its value is truthy, is given the two
  addresses and the database is saved. The record is changed in place, which the
  model writes as storing the changed record under its key. An error thrown by one of
  the property accesses ends the call in the handler, which logs.
\<close>

definition updatePhotoAddress ::
  "platform \<Rightarrow> load_faults \<Rightarrow> save_faults \<Rightarrow> string \<Rightarrow> string \<Rightarrow> string \<Rightarrow> ExifExtractor
   \<Rightarrow> files \<Rightarrow> files" where
  "updatePhotoAddress pl lf sf key fullAddress shortAddress x fs =
     (if metadataFilePath x = None then fs
      else (case loadMetadataDatabase pl lf (metadataFilePath x) fs of
              Inl error \<Rightarrow> fs
            | Inr (database, fs1) \<Rightarrow>
                (case get_property database key of
                   Inl error \<Rightarrow> fs1
                 | Inr e \<Rightarrow>
                     if js_truthy e
                     then (case set_property (the e) ''FullAddress'' (JStr fullAddress) of
                             Inl error \<Rightarrow> fs1
                           | Inr e1 \<Rightarrow>
                               (case set_property e1 ''ShortAddress'' (JStr shortAddress) of
                                  Inl error \<Rightarrow> fs1
                                | Inr e2 \<Rightarrow>
                                    (case set_property database key e2 of
                                       Inl error \<Rightarrow> fs1
                                     | Inr stored \<Rightarrow>
                                         saveMetadataDatabase pl sf (metadataFilePath x)
                                           stored fs1)))
                     else fs1)))"

text \<open>
  A task of the queue calls \<open>reverseGeocode\<close> and stores an address that came back.
  \<open>processGeocodingQueue\<close> returns at once when a drain is under way; otherwise it
  takes the tasks from the front of the queue one at a time, each to its end before
  the next, and clears its flag. The answer to the \<open>k\<close>-th request is \<open>replies k\<close>.
\<close>

definition run_task ::
  "platform \<Rightarrow> load_faults \<Rightarrow> save_faults \<Rightarrow> int \<times> geo_response \<Rightarrow> geo_task
   \<Rightarrow> ExifExtractor \<times> geo_world \<Rightarrow> ExifExtractor \<times> geo_world" where
  "run_task pl lf sf reply task state =
     (case reverseGeocode reply state of
        (None, x1, w1) \<Rightarrow> (x1, w1)
      | (Some (fullAddress, shortAddress), x1, w1) \<Rightarrow>
          (x1, w1\<lparr>store := updatePhotoAddress pl lf sf (task_key task) fullAddress shortAddress
                              x1 (store w1)\<rparr>))"

fun drain_queue ::
  "platform \<Rightarrow> load_faults \<Rightarrow> save_faults \<Rightarrow> (nat \<Rightarrow> int \<times> geo_response) \<Rightarrow> geo_task list
   \<Rightarrow> ExifExtractor \<times> geo_world \<Rightarrow> ExifExtractor \<times> geo_world" where
  "drain_queue pl lf sf replies [] state = state"
| "drain_queue pl lf sf replies (task # rest) state =
     (case state of (x, w) \<Rightarrow>
        drain_queue pl lf sf replies rest
          (run_task pl lf sf (replies (length (nominatim_calls w))) task
             (x\<lparr>geocodingQueue := rest\<rparr>, w)))"

definition processGeocodingQueue ::
  "platform \<Rightarrow> load_faults \<Rightarrow> save_faults \<Rightarrow> (nat \<Rightarrow> int \<times> geo_response)
   \<Rightarrow> ExifExtractor \<times> geo_world \<Rightarrow> ExifExtractor \<times> geo_world" where
  "processGeocodingQueue pl lf sf replies state =
     (case state of (x, w) \<Rightarrow>
        if isProcessingGeocodingQueue x then (x, w)
        else (case drain_queue pl lf sf replies (geocodingQueue x)
                     (x\<lparr>isProcessingGeocodingQueue := True\<rparr>, w) of
                (x', w') \<Rightarrow> (x'\<lparr>isProcessingGeocodingQueue := False\<rparr>, w')))"

text \<open>
  Examples: three tasks enqueued back to back on a fresh extractor, and a service
  that answers every request after 100 ms with a payload that has neither an error nor
  a display name, or with a 4xx status.
\<close>

definition three_tasks :: ExifExtractor where
  "three_tasks = fresh_extractor\<lparr>geocodingQueue := [sample_task, sample_task, sample_task]\<rparr>"

definition start_world :: geo_world where
  "start_world = \<lparr>clock = 1700000000000, nominatim_calls = [], store = sample_db_disk\<rparr>"

definition nameless_replies :: "nat \<Rightarrow> int \<times> geo_response" where
  "nameless_replies k =
     (100, Data \<lparr>data_error = False, display_name = None, data_address = None\<rparr>)"

definition refused_replies :: "nat \<Rightarrow> int \<times> geo_response" where
  "refused_replies k = (100, ClientError)"

text \<open>
  An answer after which \<open>reverseGeocode\<close> records the time of the request, and
  request times that keep the minimum distance.
\<close>

definition records_time :: "geo_response \<Rightarrow> bool" where
  "records_time response =
     (case response of Data d \<Rightarrow> data_error d \<or> truthy (display_name d) | _ \<Rightarrow> True)"

fun spaced :: "int list \<Rightarrow> bool" where
  "spaced [] = True"
| "spaced [t] = True"
| "spaced (t # u # ts) = (t + geocodingRateLimitMs \<le> u \<and> spaced (u # ts))"

definition rate_limited :: "ExifExtractor \<times> geo_world \<Rightarrow> bool" where
  "rate_limited state =
     (case state of (x, w) \<Rightarrow>
        spaced (nominatim_calls w) \<and>
        (nominatim_calls w = [] \<or> last (nominatim_calls w) \<le> lastGeocodingRequestTime x))"


section \<open>Theorems\<close>

subsection \<open>Shuffle\<close>


lemma floor_index_less:
  fixes r :: real
  assumes "0 \<le> r" "r < 1" "0 < n"
  shows "nat \<lfloor>r * real n\<rfloor> < n"
proof -
  have "r * real n < real n" using assms by simp
  then have "\<lfloor>r * real n\<rfloor> < int n" by (simp add: floor_less_iff)
  then show ?thesis using assms by linarith
qed

lemma mset_swap_in_range:
  "i < length a \<Longrightarrow> j < length a \<Longrightarrow> mset (swap i j a) = mset a"
  by (simp add: swap_def mset_swap)

lemma length_swap: "length (swap i j a) = length a"
  by (simp add: swap_def)

lemma seeded_pass_perm:
  "i < length a \<Longrightarrow> mset (seeded_pass i seed a) = mset a \<and> length (seeded_pass i seed a) = length a"
proof (induction i arbitrary: seed a)
  case 0
  then show ?case by simp
next
  case (Suc i)
  let ?seed = "(seed * 9301 + 49297) mod 233280"
  let ?j = "nat \<lfloor>(real ?seed / 233280) * real (Suc i + 1)\<rfloor>"
  have "?seed < 233280" by simp
  then have r1: "real ?seed / 233280 < 1" by simp
  have r0: "0 \<le> real ?seed / 233280" by simp
  have "?j < Suc i + 1" by (rule floor_index_less [OF r0 r1]) simp
  with Suc.prems have j: "?j < length a" by simp
  have "mset (swap (Suc i) ?j a) = mset a"
    using Suc.prems j by (rule mset_swap_in_range)
  moreover have "i < length (swap (Suc i) ?j a)" using Suc.prems by (simp add: length_swap)
  ultimately show ?case using Suc.IH [of "swap (Suc i) ?j a" ?seed]
    by (simp add: Let_def length_swap)
qed

lemma random_pass_perm:
  "i < length a \<Longrightarrow> \<forall>k. 0 \<le> rnd k \<and> rnd k < 1 \<Longrightarrow>
   mset (random_pass i rnd a) = mset a \<and> length (random_pass i rnd a) = length a"
proof (induction i arbitrary: rnd a)
  case 0
  then show ?case by simp
next
  case (Suc i)
  let ?j = "nat \<lfloor>rnd 0 * real (Suc i + 1)\<rfloor>"
  have "?j < Suc i + 1" using Suc.prems(2) by (intro floor_index_less) auto
  with Suc.prems have j: "?j < length a" by simp
  have "mset (swap (Suc i) ?j a) = mset a"
    using Suc.prems(1) j by (rule mset_swap_in_range)
  moreover have "i < length (swap (Suc i) ?j a)" using Suc.prems by (simp add: length_swap)
  moreover have "\<forall>k. 0 \<le> rnd (Suc k) \<and> rnd (Suc k) < 1" using Suc.prems(2) by simp
  ultimately show ?case using Suc.IH [of "swap (Suc i) ?j a" "\<lambda>k. rnd (Suc k)"]
    by (simp add: Let_def length_swap)
qed

lemma shuffleArray_perm:
  assumes "\<forall>k. 0 \<le> rnd k \<and> rnd k < 1"
  shows "mset (shuffleArray now rnd a) = mset a \<and> length (shuffleArray now rnd a) = length a"
proof (cases a)
  case Nil
  then show ?thesis by (simp add: shuffleArray_def)
next
  case (Cons x xs)
  then have i: "length a - 1 < length a" by simp
  from seeded_pass_perm [OF i, of now]
  have s: "mset (seeded_pass (length a - 1) now a) = mset a"
    "length (seeded_pass (length a - 1) now a) = length a" by simp_all
  from i s have "length a - 1 < length (seeded_pass (length a - 1) now a)" by simp
  from random_pass_perm [OF this assms] s show ?thesis
    by (simp add: shuffleArray_def)
qed

text \<open>
  C7. For every input list and every clock value, when the platform's random numbers
  lie in \<open>[0, 1)\<close>, the shuffle (both Fisher-Yates passes) returns a permutation of
  its input: the same multiset of elements, hence every element exactly once, and the
  same length.
\<close>

theorem shuffleArray_permutation:
  "\<forall>k. 0 \<le> rnd k \<and> rnd k < 1 \<Longrightarrow>
   mset (shuffleArray now rnd a) = mset a \<and> length (shuffleArray now rnd a) = length a"
  by (rule shuffleArray_perm)

theorem shuffleArray_permutation_witness:
  "mset (shuffleArray 1700000000000 (\<lambda>k. 1 / 2) [1::nat, 2, 3]) = mset [1, 2, 3] \<and>
   length (shuffleArray 1700000000000 (\<lambda>k. 1 / 2) [1::nat, 2, 3]) = 3 \<and>
   shuffleArray 1700000000000 (\<lambda>k. 1 / 2) [1::nat, 2, 3] = [3, 1, 2]"
proof -
  have h: "\<forall>k::nat. 0 \<le> (1 / 2 :: real) \<and> (1 / 2 :: real) < 1" by simp
  have e: "shuffleArray 1700000000000 (\<lambda>k. 1 / 2) [1::nat, 2, 3] = [3, 1, 2]"
    by (simp add: shuffleArray_def swap_def)
  note p = shuffleArray_permutation [of "\<lambda>k. 1 / 2" 1700000000000 "[1::nat, 2, 3]", OF h]
  from p have a: "mset (shuffleArray 1700000000000 (\<lambda>k. 1 / 2) [1::nat, 2, 3]) = mset [1, 2, 3]"
    by (rule conjunct1)
  from p have b: "length (shuffleArray 1700000000000 (\<lambda>k. 1 / 2) [1::nat, 2, 3]) = 3"
    by simp
  from a b e show ?thesis by blast
qed


subsection \<open>Duplicate removal\<close>

lemma filter_seen_keys:
  "dedupeKey ` set (filter_seen seen ps) = dedupeKey ` set ps - seen"
  by (induction ps arbitrary: seen) auto

lemma filter_seen_notin:
  "p \<in> set (filter_seen seen ps) \<Longrightarrow> dedupeKey p \<notin> seen"
  by (induction ps arbitrary: seen) (auto split: if_splits)

lemma filter_seen_distinct: "distinct (map dedupeKey (filter_seen seen ps))"
  by (induction ps arbitrary: seen) (auto dest: filter_seen_notin)

lemma filter_seen_subseq: "subseq (filter_seen seen ps) ps"
  by (induction ps arbitrary: seen) auto

lemma filter_seen_first:
  "p \<in> set (filter_seen seen ps) \<Longrightarrow>
   find (\<lambda>q. dedupeKey q = dedupeKey p) ps = Some p"
proof (induction ps arbitrary: seen)
  case Nil
  then show ?case by simp
next
  case (Cons a ps)
  show ?case
  proof (cases "dedupeKey a \<in> seen")
    case True
    with Cons.prems have in_rest: "p \<in> set (filter_seen seen ps)" by simp
    then have "dedupeKey p \<notin> seen" by (rule filter_seen_notin)
    with True have "dedupeKey a \<noteq> dedupeKey p" by auto
    with Cons.IH [OF in_rest] show ?thesis by simp
  next
    case False
    show ?thesis
    proof (cases "p = a")
      case True
      then show ?thesis by simp
    next
      case neq: False
      with False Cons.prems
      have in_rest: "p \<in> set (filter_seen (insert (dedupeKey a) seen) ps)" by simp
      then have "dedupeKey p \<noteq> dedupeKey a" by (auto dest: filter_seen_notin)
      with Cons.IH [OF in_rest] show ?thesis by simp
    qed
  qed
qed

lemma composite_dedupeKey:
  "composite p = composite q \<Longrightarrow> synologyId p = Some n \<Longrightarrow> n \<noteq> 0 \<Longrightarrow>
   dedupeKey p = dedupeKey q"
  by (cases "synologyId q") (auto simp: composite_def dedupeKey_def)

text \<open>
  C5 (amended). The duplicate-removal step keeps exactly one photo per dedupe key
  (the provider id \<open>synologyId\<close> alone, or \<open>id\<close> when that is absent or zero; the
  space id plays no part), and the photo kept is the first one seen with that key, in
  the order of the input. Two kept photos never share a composite identity with a
  non-zero provider id.
\<close>

theorem removeDuplicatePhotos_first_wins:
  "distinct (map dedupeKey (removeDuplicatePhotos ps)) \<and>
   set (map dedupeKey (removeDuplicatePhotos ps)) = set (map dedupeKey ps) \<and>
   subseq (removeDuplicatePhotos ps) ps \<and>
   (\<forall>p \<in> set (removeDuplicatePhotos ps).
      find (\<lambda>q. dedupeKey q = dedupeKey p) ps = Some p) \<and>
   (\<forall>i j n. i < j \<and> j < length (removeDuplicatePhotos ps) \<and>
      synologyId (removeDuplicatePhotos ps ! i) = Some n \<and> n \<noteq> 0 \<longrightarrow>
      composite (removeDuplicatePhotos ps ! i) \<noteq> composite (removeDuplicatePhotos ps ! j))"
proof -
  let ?r = "removeDuplicatePhotos ps"
  have d: "distinct (map dedupeKey ?r)"
    by (simp add: removeDuplicatePhotos_def filter_seen_distinct)
  have k: "set (map dedupeKey ?r) = set (map dedupeKey ps)"
    by (simp add: removeDuplicatePhotos_def filter_seen_keys)
  have s: "subseq ?r ps"
    by (simp add: removeDuplicatePhotos_def filter_seen_subseq)
  have f: "\<forall>p \<in> set ?r. find (\<lambda>q. dedupeKey q = dedupeKey p) ps = Some p"
    using filter_seen_first [of _ "{}" ps] by (simp add: removeDuplicatePhotos_def)
  have c: "\<forall>i j n. i < j \<and> j < length ?r \<and> synologyId (?r ! i) = Some n \<and> n \<noteq> 0 \<longrightarrow>
      composite (?r ! i) \<noteq> composite (?r ! j)"
  proof (intro allI impI)
    fix i j n
    assume a: "i < j \<and> j < length ?r \<and> synologyId (?r ! i) = Some n \<and> n \<noteq> 0"
    then have "map dedupeKey ?r ! i \<noteq> map dedupeKey ?r ! j"
      using d by (simp add: distinct_conv_nth)
    with a have "dedupeKey (?r ! i) \<noteq> dedupeKey (?r ! j)" by simp
    with a show "composite (?r ! i) \<noteq> composite (?r ! j)"
      using composite_dedupeKey by blast
  qed
  from d k s f c show ?thesis by blast
qed

theorem removeDuplicatePhotos_first_wins_witness:
  "removeDuplicatePhotos [photo ''a'' 7 0, photo ''b'' 8 0, photo ''c'' 7 0]
     = [photo ''a'' 7 0, photo ''b'' 8 0] \<and>
   find (\<lambda>q. dedupeKey q = dedupeKey (photo ''a'' 7 0))
     [photo ''a'' 7 0, photo ''b'' 8 0, photo ''c'' 7 0] = Some (photo ''a'' 7 0) \<and>
   composite (removeDuplicatePhotos [photo ''a'' 7 0, photo ''b'' 8 0, photo ''c'' 7 0] ! 0)
     \<noteq> composite (removeDuplicatePhotos [photo ''a'' 7 0, photo ''b'' 8 0, photo ''c'' 7 0] ! 1)"
proof -
  let ?ps = "[photo ''a'' 7 0, photo ''b'' 8 0, photo ''c'' 7 0]"
  have r: "removeDuplicatePhotos ?ps = [photo ''a'' 7 0, photo ''b'' 8 0]"
    by (simp add: removeDuplicatePhotos_def dedupeKey_def photo_def)
  have m: "photo ''a'' 7 0 \<in> set (removeDuplicatePhotos ?ps)"
    by (simp add: r)
  note t = removeDuplicatePhotos_first_wins [of ?ps]
  from t m have f: "find (\<lambda>q. dedupeKey q = dedupeKey (photo ''a'' 7 0)) ?ps
      = Some (photo ''a'' 7 0)"
    by blast
  have h: "(0::nat) < 1 \<and> 1 < length (removeDuplicatePhotos ?ps) \<and>
      synologyId (removeDuplicatePhotos ?ps ! 0) = Some 7 \<and> (7::int) \<noteq> 0"
    unfolding r by (simp add: photo_def)
  from t have "\<forall>i j n. i < j \<and> j < length (removeDuplicatePhotos ?ps) \<and>
      synologyId (removeDuplicatePhotos ?ps ! i) = Some n \<and> n \<noteq> 0 \<longrightarrow>
      composite (removeDuplicatePhotos ?ps ! i) \<noteq> composite (removeDuplicatePhotos ?ps ! j)"
    by blast
  with h have c: "composite (removeDuplicatePhotos ?ps ! 0) \<noteq> composite (removeDuplicatePhotos ?ps ! 1)"
    by blast
  from r f c show ?thesis by blast
qed

text \<open>
  C5 as stated fails: of two photos with the same composite identity the first is
  kept, not the last; and two photos of different spaces with the same provider id,
  whose composite identities differ, are reduced to one.
\<close>

theorem removeDuplicatePhotos_last_wins_counterexample:
  "composite (photo ''first'' 7 0) = composite (photo ''last'' 7 0) \<and>
   removeDuplicatePhotos [photo ''first'' 7 0, photo ''last'' 7 0] = [photo ''first'' 7 0] \<and>
   photo ''last'' 7 0 \<notin> set (removeDuplicatePhotos [photo ''first'' 7 0, photo ''last'' 7 0]) \<and>
   composite (photo ''p'' 7 0) \<noteq> composite (photo ''q'' 7 1) \<and>
   removeDuplicatePhotos [photo ''p'' 7 0, photo ''q'' 7 1] = [photo ''p'' 7 0]"
  by (simp add: removeDuplicatePhotos_def dedupeKey_def photo_def composite_def)


subsection \<open>Cursor of the list manager\<close>

lemma getNextImage_cursor_ok: "cursor_ok s \<Longrightarrow> cursor_ok (snd (getNextImage s))"
  by (auto simp: cursor_ok_def getNextImage_def)

lemma getPreviousImage_cursor_ok: "cursor_ok s \<Longrightarrow> cursor_ok (snd (getPreviousImage s))"
  by (cases "imageList s") (auto simp: cursor_ok_def getPreviousImage_def getNextImage_def Let_def)

lemma switchToNextBatch_cursor_ok: "cursor_ok s \<Longrightarrow> cursor_ok (switchToNextBatch s)"
  by (simp add: cursor_ok_def switchToNextBatch_def)

lemma reset_cursor_ok: "cursor_ok s \<Longrightarrow> cursor_ok (reset s)"
  by (simp add: cursor_ok_def reset_def)

lemma prepareImageList_cursor_ok:
  "cursor_ok s \<Longrightarrow> cursor_ok (snd (prepareImageList w images config isPreload s))"
  by (simp add: cursor_ok_def prepareImageList_def Let_def resetShownImagesTracker_def)

lemma getNextImage_cases:
  "cursor_ok s \<Longrightarrow>
   getNextImage s =
     (if imageList s \<noteq> [] \<and> index s < int (length (imageList s))
      then (Inr (Some (imageList s ! nat (index s))), s\<lparr>index := index s + 1\<rparr>)
      else (Inr None, s))"
  by (auto simp: cursor_ok_def getNextImage_def)

text \<open>
  C10. The cursor invariant \<open>0 \<le> index \<le> length of the current list\<close> holds
  initially and after every operation of the list manager (\<open>prepareImageList\<close>,
  \<open>getNextImage\<close>, \<open>getPreviousImage\<close>, \<open>switchToNextBatch\<close>, \<open>reset\<close>) started
  where it holds. There \<open>getNextImage\<close> returns the item at the cursor and advances
  the cursor by exactly one iff the current list is non-empty and the cursor is below
  its length; otherwise it returns none and changes nothing.
\<close>

theorem cursor_invariant:
  "cursor_ok initial_manager \<and>
   (cursor_ok s \<longrightarrow>
      cursor_ok (snd (prepareImageList w images config isPreload s)) \<and>
      cursor_ok (snd (getNextImage s)) \<and>
      cursor_ok (snd (getPreviousImage s)) \<and>
      cursor_ok (switchToNextBatch s) \<and>
      cursor_ok (reset s) \<and>
      getNextImage s =
        (if imageList s \<noteq> [] \<and> index s < int (length (imageList s))
         then (Inr (Some (imageList s ! nat (index s))), s\<lparr>index := index s + 1\<rparr>)
         else (Inr None, s)))"
  using prepareImageList_cursor_ok getNextImage_cursor_ok getPreviousImage_cursor_ok
    switchToNextBatch_cursor_ok reset_cursor_ok getNextImage_cases
  by (simp add: cursor_ok_def initial_manager_def)

theorem cursor_invariant_witness:
  "cursor_ok two_photos \<and>
   getNextImage two_photos = (Inr (Some (photo ''b'' 2 0)), two_photos\<lparr>index := 2\<rparr>) \<and>
   cursor_ok (snd (getNextImage two_photos)) \<and>
   cursor_ok (snd (getPreviousImage two_photos)) \<and>
   getNextImage (two_photos\<lparr>index := 2\<rparr>) = (Inr None, two_photos\<lparr>index := 2\<rparr>)"
proof -
  have h: "cursor_ok two_photos"
    by (simp add: cursor_ok_def two_photos_def initial_manager_def)
  have h2: "cursor_ok (two_photos\<lparr>index := 2\<rparr>)"
    by (simp add: cursor_ok_def two_photos_def initial_manager_def)
  from cursor_invariant [of two_photos calm_world "[]" all_shown_config False] h
  have a: "cursor_ok (snd (getNextImage two_photos))"
    and b: "cursor_ok (snd (getPreviousImage two_photos))"
    and c: "getNextImage two_photos =
        (if imageList two_photos \<noteq> [] \<and> index two_photos < int (length (imageList two_photos))
         then (Inr (Some (imageList two_photos ! nat (index two_photos))),
               two_photos\<lparr>index := index two_photos + 1\<rparr>)
         else (Inr None, two_photos))"
    by blast+
  from c have c': "getNextImage two_photos = (Inr (Some (photo ''b'' 2 0)), two_photos\<lparr>index := 2\<rparr>)"
    by (simp add: two_photos_def initial_manager_def)
  from cursor_invariant [of "two_photos\<lparr>index := 2\<rparr>" calm_world "[]" all_shown_config False] h2
  have "getNextImage (two_photos\<lparr>index := 2\<rparr>) =
        (if imageList (two_photos\<lparr>index := 2\<rparr>) \<noteq> [] \<and>
            index (two_photos\<lparr>index := 2\<rparr>) < int (length (imageList (two_photos\<lparr>index := 2\<rparr>)))
         then (Inr (Some (imageList (two_photos\<lparr>index := 2\<rparr>) ! nat (index (two_photos\<lparr>index := 2\<rparr>)))),
               two_photos\<lparr>index := 2\<rparr>\<lparr>index := index (two_photos\<lparr>index := 2\<rparr>) + 1\<rparr>)
         else (Inr None, two_photos\<lparr>index := 2\<rparr>))"
    by blast
  then have d: "getNextImage (two_photos\<lparr>index := 2\<rparr>) = (Inr None, two_photos\<lparr>index := 2\<rparr>)"
    by (simp add: two_photos_def initial_manager_def)
  from h a b c' d show ?thesis by blast
qed

subsection \<open>Sorting\<close>

lemma mset_insert_sorted: "mset (insert_sorted cmp x ys) = add_mset x (mset ys)"
  by (induction ys) auto

lemma mset_foldl_insert_sorted:
  "mset (foldl (\<lambda>sorted x. insert_sorted cmp x sorted) acc xs) = mset acc + mset xs"
  by (induction xs arbitrary: acc) (auto simp: mset_insert_sorted)

lemma mset_array_sort: "mset (array_sort cmp xs) = mset xs"
  by (simp add: array_sort_def mset_foldl_insert_sorted)

lemma mset_sortImageList: "mset (sortImageList xs sortBy desc) = mset xs"
  by (simp add: sortImageList_def Let_def mset_array_sort)

lemma set_insert_sorted: "set (insert_sorted cmp x ys) = insert x (set ys)"
  by (induction ys) auto

lemma sorted_insert_by_key:
  fixes key :: "'a \<Rightarrow> int"
  shows "sorted (map key ys) \<Longrightarrow> sorted (map key (insert_sorted (\<lambda>a b. key a - key b) x ys))"
  by (induction ys) (auto simp: set_insert_sorted)

lemma filter_insert_by_key:
  fixes key :: "'a \<Rightarrow> int"
  shows "sorted (map key ys) \<Longrightarrow>
   filter (\<lambda>y. key y = k) (insert_sorted (\<lambda>a b. key a - key b) x ys)
     = filter (\<lambda>y. key y = k) ys @ (if key x = k then [x] else [])"
proof (induction ys)
  case Nil
  then show ?case by simp
next
  case (Cons y ys)
  show ?case
  proof (cases "key x - key y < 0")
    case True
    with Cons.prems have "\<forall>z \<in> set (y # ys). key x < key z" by auto
    then have "key x = k \<Longrightarrow> filter (\<lambda>y. key y = k) (y # ys) = []"
      by (auto simp: filter_empty_conv)
    with True show ?thesis by auto
  next
    case False
    with Cons show ?thesis by auto
  qed
qed

lemma foldl_insert_by_key:
  fixes key :: "'a \<Rightarrow> int"
  shows "sorted (map key acc) \<Longrightarrow>
   sorted (map key (foldl (\<lambda>sorted x. insert_sorted (\<lambda>a b. key a - key b) x sorted) acc xs)) \<and>
   filter (\<lambda>y. key y = k) (foldl (\<lambda>sorted x. insert_sorted (\<lambda>a b. key a - key b) x sorted) acc xs)
     = filter (\<lambda>y. key y = k) acc @ filter (\<lambda>y. key y = k) xs"
proof (induction xs arbitrary: acc)
  case Nil
  then show ?case by simp
next
  case (Cons x xs)
  from Cons.prems have s: "sorted (map key (insert_sorted (\<lambda>a b. key a - key b) x acc))"
    by (rule sorted_insert_by_key)
  from Cons.IH [OF s] filter_insert_by_key [OF Cons.prems, where k = k and x = x]
  show ?case by simp
qed

lemma array_sort_by_key_stable:
  fixes key :: "'a \<Rightarrow> int"
  shows "sorted (map key (array_sort (\<lambda>a b. key a - key b) xs)) \<and>
   filter (\<lambda>y. key y = k) (array_sort (\<lambda>a b. key a - key b) xs) = filter (\<lambda>y. key y = k) xs"
  using foldl_insert_by_key [where key = key and acc = "[]" and k = k and xs = xs]
  by (simp add: array_sort_def)

text \<open>
  Sorting by creation time and by modification time is stable: the result is
  ascending, and the photos of one time stay in the order of the input.
\<close>

lemma sortImageList_created_stable:
  "sorted (map created (sortImageList xs ''created'' False)) \<and>
   filter (\<lambda>y. created y = k) (sortImageList xs ''created'' False) = filter (\<lambda>y. created y = k) xs \<and>
   sorted (map modified (sortImageList xs ''modified'' False)) \<and>
   filter (\<lambda>y. modified y = k) (sortImageList xs ''modified'' False) = filter (\<lambda>y. modified y = k) xs"
proof -
  have c: "sortByCreated = (\<lambda>a b. created a - created b)"
    by (simp add: sortByCreated_def fun_eq_iff)
  have m: "sortByModified = (\<lambda>a b. modified a - modified b)"
    by (simp add: sortByModified_def fun_eq_iff)
  show ?thesis
    using array_sort_by_key_stable [where key = created and xs = xs and k = k]
      array_sort_by_key_stable [where key = modified and xs = xs and k = k]
    by (simp add: sortImageList_def c m)
qed

text \<open>
  C6, evaluated. The name comparator never answers 0: for two paths that are equal up
  to case it answers \<open>-1\<close> both ways round. Sorting \<open>A.jpg, a.jpg\<close> by name
  therefore swaps the two (ascending) where a stable sort keeps them, while the
  comparator by creation time, which answers 0 on a tie, keeps them. On distinct
  names the result is as specified: \<open>b, a, a2\<close> gives \<open>a, a2, b\<close> ascending and
  \<open>b, a2, a\<close> descending.
\<close>

theorem sortImageList_name_ties:
  "sortImageList [photo ''A.jpg'' 1 0, photo ''a.jpg'' 2 0] ''name'' False
     = [photo ''a.jpg'' 2 0, photo ''A.jpg'' 1 0] \<and>
   sortImageList [photo ''A.jpg'' 1 0, photo ''a.jpg'' 2 0] ''name'' True
     = [photo ''A.jpg'' 1 0, photo ''a.jpg'' 2 0] \<and>
   sortImageList [photo ''A.jpg'' 1 0, photo ''a.jpg'' 2 0] ''created'' False
     = [photo ''A.jpg'' 1 0, photo ''a.jpg'' 2 0] \<and>
   map path (sortImageList [photo ''b'' 1 0, photo ''a'' 2 0, photo ''a2'' 3 0] ''name'' False)
     = [''a'', ''a2'', ''b''] \<and>
   map path (sortImageList [photo ''b'' 1 0, photo ''a'' 2 0, photo ''a2'' 3 0] ''name'' True)
     = [''b'', ''a2'', ''a''] \<and>
   sortByFilename (photo ''A.jpg'' 1 0) (photo ''a.jpg'' 2 0) = - 1 \<and>
   sortByFilename (photo ''a.jpg'' 2 0) (photo ''A.jpg'' 1 0) = - 1"
  by (simp add: sortImageList_def array_sort_def sortByFilename_def sortByCreated_def
        toLowerCase_def toLowerChar_def photo_def)

subsection \<open>Preparing a list when everything was shown\<close>


lemma tracker_abc: "readShownImagesTracker False (Some ''a\<newline>b\<newline>c\<newline>'') = {''a'', ''b'', ''c''}"
  by (auto simp: readShownImagesTracker_def split_lines_def trim_def is_space_def)


text \<open>
  C4 (amended). With the show-all-before-repeating policy active, a non-empty input
  list that the filter empties, and a call that is not a preload call,
  \<open>prepareImageList\<close> rebuilds the result from the full unfiltered source: the
  current list is a permutation of the input, so it is non-empty, and the cursor is 0.
  The tracker is reset, both the in-memory set and the persisted store, when the
  store can be written; when writing it fails, the set stays as read from the store
  and the store stays as it was.
\<close>

theorem prepareImageList_all_shown:
  assumes "showAllImagesBeforeRestart config" and "images \<noteq> []" and "\<not> isPreload"
    and "filter (\<lambda>image. path image \<notin>
            readShownImagesTracker (tracker_read_fails w) (trackerFile s)) images = []"
    and "\<forall>k. 0 \<le> math_random w k \<and> math_random w k < 1"
  shows "fst (prepareImageList w images config isPreload s)
           = imageList (snd (prepareImageList w images config isPreload s)) \<and>
         mset (imageList (snd (prepareImageList w images config isPreload s))) = mset images \<and>
         imageList (snd (prepareImageList w images config isPreload s)) \<noteq> [] \<and>
         index (snd (prepareImageList w images config isPreload s)) = 0 \<and>
         (if tracker_write_fails w
          then alreadyShownSet (snd (prepareImageList w images config isPreload s))
                 = readShownImagesTracker (tracker_read_fails w) (trackerFile s) \<and>
               trackerFile (snd (prepareImageList w images config isPreload s)) = trackerFile s
          else alreadyShownSet (snd (prepareImageList w images config isPreload s)) = {} \<and>
               trackerFile (snd (prepareImageList w images config isPreload s)) = Some [])"
proof -
  let ?final = "if randomizeImageOrder config
             then shuffleArray (date_now w) (math_random w) images
             else sortImageList images (sortImagesBy config) (sortImagesDescending config)"
  let ?s1 = "s\<lparr>alreadyShownSet := readShownImagesTracker (tracker_read_fails w) (trackerFile s)\<rparr>"
  have eq: "prepareImageList w images config isPreload s =
     (?final, (resetShownImagesTracker (tracker_write_fails w) ?s1)
                \<lparr>imageList := ?final, index := 0\<rparr>)"
    using assms(1-4) by (simp add: prepareImageList_def Let_def)
  have m: "mset ?final = mset images"
    using shuffleArray_perm [OF assms(5), of "date_now w" images]
    by (simp add: mset_sortImageList)
  with assms(2) have ne: "?final \<noteq> []" by (metis mset_zero_iff)
  show ?thesis
    unfolding eq using m ne by (simp add: resetShownImagesTracker_def)
qed

theorem prepareImageList_all_shown_witness:
  "filter (\<lambda>image. path image \<notin>
      readShownImagesTracker (tracker_read_fails calm_world) (trackerFile shown_abc))
     [photo ''c'' 3 0, photo ''a'' 1 0, photo ''b'' 2 0] = [] \<and>
   fst (prepareImageList calm_world [photo ''c'' 3 0, photo ''a'' 1 0, photo ''b'' 2 0]
          all_shown_config False shown_abc)
     = [photo ''a'' 1 0, photo ''b'' 2 0, photo ''c'' 3 0] \<and>
   alreadyShownSet (snd (prepareImageList calm_world
      [photo ''c'' 3 0, photo ''a'' 1 0, photo ''b'' 2 0] all_shown_config False shown_abc)) = {} \<and>
   trackerFile (snd (prepareImageList calm_world
      [photo ''c'' 3 0, photo ''a'' 1 0, photo ''b'' 2 0] all_shown_config False shown_abc)) = Some []"
proof -
  let ?images = "[photo ''c'' 3 0, photo ''a'' 1 0, photo ''b'' 2 0]"
  have t: "readShownImagesTracker (tracker_read_fails calm_world) (trackerFile shown_abc)
             = {''a'', ''b'', ''c''}"
    by (simp add: calm_world_def shown_abc_def initial_manager_def tracker_abc)
  have h1: "showAllImagesBeforeRestart all_shown_config" by (simp add: all_shown_config_def)
  have h2: "?images \<noteq> []" by simp
  have h3: "\<not> False" by simp
  have h4: "filter (\<lambda>image. path image \<notin>
      readShownImagesTracker (tracker_read_fails calm_world) (trackerFile shown_abc)) ?images = []"
    unfolding t by (simp add: photo_def)
  have h5: "\<forall>k. 0 \<le> math_random calm_world k \<and> math_random calm_world k < 1"
    by (simp add: calm_world_def)
  note p = prepareImageList_all_shown [OF h1 h2 h3 h4 h5]
  have w: "\<not> tracker_write_fails calm_world" by (simp add: calm_world_def)
  from p w have a: "alreadyShownSet (snd (prepareImageList calm_world ?images all_shown_config False shown_abc)) = {}"
    and b: "trackerFile (snd (prepareImageList calm_world ?images all_shown_config False shown_abc)) = Some []"
    by simp_all
  have c: "fst (prepareImageList calm_world ?images all_shown_config False shown_abc)
     = [photo ''a'' 1 0, photo ''b'' 2 0, photo ''c'' 3 0]"
    unfolding prepareImageList_def Let_def t
    by (simp add: all_shown_config_def sortImageList_def array_sort_def sortByFilename_def
          toLowerCase_def toLowerChar_def photo_def)
  from h4 a b c show ?thesis by blast
qed

text \<open>
  C4 as stated fails where the tracker file cannot be written: the handler of
  \<open>resetShownImagesTracker\<close> logs the error, and neither the set nor the file is
  reset, although the list is rebuilt.
\<close>

theorem prepareImageList_reset_counterexample:
  "showAllImagesBeforeRestart all_shown_config \<and>
   [photo ''a'' 1 0] \<noteq> [] \<and>
   filter (\<lambda>image. path image \<notin>
      readShownImagesTracker (tracker_read_fails readonly_world) (trackerFile shown_abc))
     [photo ''a'' 1 0] = [] \<and>
   alreadyShownSet (snd (prepareImageList readonly_world [photo ''a'' 1 0]
      all_shown_config False shown_abc)) = {''a'', ''b'', ''c''} \<and>
   alreadyShownSet (snd (prepareImageList readonly_world [photo ''a'' 1 0]
      all_shown_config False shown_abc)) \<noteq> {} \<and>
   trackerFile (snd (prepareImageList readonly_world [photo ''a'' 1 0]
      all_shown_config False shown_abc)) = Some ''a\<newline>b\<newline>c\<newline>''"
proof -
  have t: "readShownImagesTracker (tracker_read_fails readonly_world) (trackerFile shown_abc)
             = {''a'', ''b'', ''c''}"
    by (simp add: readonly_world_def calm_world_def shown_abc_def initial_manager_def tracker_abc)
  have e: "snd (prepareImageList readonly_world [photo ''a'' 1 0] all_shown_config False shown_abc)
     = shown_abc\<lparr>alreadyShownSet := {''a'', ''b'', ''c''}, imageList := [photo ''a'' 1 0], index := 0\<rparr>"
    unfolding prepareImageList_def Let_def t
    by (simp add: all_shown_config_def readonly_world_def calm_world_def resetShownImagesTracker_def
          sortImageList_def array_sort_def photo_def)
  show ?thesis unfolding e t
    by (simp add: all_shown_config_def shown_abc_def initial_manager_def photo_def)
qed

subsection \<open>Cache eviction\<close>

lemma set_array_sort: "set (array_sort cmp xs) = set xs"
  using mset_array_sort [of cmp xs] by (metis set_mset_mset)

lemma sorted_array_sort_mtime:
  "sorted (map mtime (array_sort (\<lambda>a b. mtime a - mtime b) xs))"
  using array_sort_by_key_stable [where key = mtime and xs = xs] by simp

lemma evicted_Nil: "evicted failing [] c c"
  by (simp add: evicted_def running_total_def)

lemma evicted_skip:
  "\<not> deletable failing x \<Longrightarrow> evicted failing pre c c' \<Longrightarrow> evicted failing (x # pre) c c'"
  by (simp add: evicted_def running_total_def)

lemma evicted_delete:
  "deletable failing x \<Longrightarrow> evicted failing pre (unlinked x c) c' \<Longrightarrow>
   evicted failing (x # pre) c c'"
  by (auto simp: evicted_def unlinked_def running_total_def intro: filter_cong)

lemma needed_Nil: "needed failing [] c"
  by (simp add: needed_def)

lemma needed_skip:
  assumes "\<not> target_reached c" and "\<not> deletable failing x" and "needed failing pre c"
  shows "needed failing (x # pre) c"
  unfolding needed_def
proof (intro allI impI)
  fix i assume "i < length (x # pre)"
  show "above_target c (running_total failing (take i (x # pre)) c)"
  proof (cases i)
    case 0
    with assms(1) show ?thesis
      by (simp add: above_target_def target_reached_def running_total_def)
  next
    case (Suc j)
    with \<open>i < length (x # pre)\<close> have "j < length pre" by simp
    with assms(3) have "above_target c (running_total failing (take j pre) c)"
      by (simp add: needed_def)
    with assms(2) Suc show ?thesis by (simp add: running_total_def)
  qed
qed

lemma needed_delete:
  assumes "\<not> target_reached c" and "deletable failing x"
    and "needed failing pre (unlinked x c)"
  shows "needed failing (x # pre) c"
  unfolding needed_def
proof (intro allI impI)
  fix i assume "i < length (x # pre)"
  show "above_target c (running_total failing (take i (x # pre)) c)"
  proof (cases i)
    case 0
    with assms(1) show ?thesis
      by (simp add: above_target_def target_reached_def running_total_def)
  next
    case (Suc j)
    with \<open>i < length (x # pre)\<close> have "j < length pre" by simp
    with assms(3) have "above_target (unlinked x c) (running_total failing (take j pre) (unlinked x c))"
      by (simp add: needed_def)
    with assms(2) Suc show ?thesis
      by (simp add: running_total_def above_target_def unlinked_def)
  qed
qed

lemma evict_loop_step:
  "evict_loop failing (x # xs) c =
     (if target_reached c then c
      else if deletable failing x then evict_loop failing xs (unlinked x c)
      else evict_loop failing xs c)"
  by (auto simp: target_reached_def deletable_def unlinked_def)

lemma evict_loop_split:
  "\<exists>pre post. files = pre @ post \<and> evicted failing pre c (evict_loop failing files c) \<and>
     needed failing pre c \<and>
     (post = [] \<or> target_reached (evict_loop failing files c))"
proof (induction files arbitrary: c)
  case Nil
  then show ?case by (simp add: evicted_Nil needed_Nil)
next
  case (Cons x xs)
  show ?case
  proof (cases "target_reached c")
    case True
    then have "evict_loop failing (x # xs) c = c" by (simp only: evict_loop_step if_True)
    with True have "x # xs = [] @ (x # xs) \<and> evicted failing [] c (evict_loop failing (x # xs) c) \<and>
      needed failing [] c \<and>
      (x # xs = [] \<or> target_reached (evict_loop failing (x # xs) c))"
      by (simp add: evicted_Nil needed_Nil)
    then show ?thesis by blast
  next
    case False
    show ?thesis
    proof (cases "deletable failing x")
      case d: False
      with False have e: "evict_loop failing (x # xs) c = evict_loop failing xs c"
        by (simp only: evict_loop_step if_False)
      from Cons.IH [of c] obtain pre post where
        s: "xs = pre @ post" and v: "evicted failing pre c (evict_loop failing xs c)"
        and n: "needed failing pre c"
        and t: "post = [] \<or> target_reached (evict_loop failing xs c)" by blast
      from s have "x # xs = (x # pre) @ post" by simp
      moreover from d v have "evicted failing (x # pre) c (evict_loop failing (x # xs) c)"
        unfolding e by (rule evicted_skip)
      moreover from False d n have "needed failing (x # pre) c" by (rule needed_skip)
      moreover from t have "post = [] \<or> target_reached (evict_loop failing (x # xs) c)"
        unfolding e .
      ultimately show ?thesis by blast
    next
      case d: True
      with False have e: "evict_loop failing (x # xs) c = evict_loop failing xs (unlinked x c)"
        by (simp only: evict_loop_step if_False if_True)
      from Cons.IH [of "unlinked x c"] obtain pre post where
        s: "xs = pre @ post"
        and v: "evicted failing pre (unlinked x c) (evict_loop failing xs (unlinked x c))"
        and n: "needed failing pre (unlinked x c)"
        and t: "post = [] \<or> target_reached (evict_loop failing xs (unlinked x c))" by blast
      from s have "x # xs = (x # pre) @ post" by simp
      moreover from d v have "evicted failing (x # pre) c (evict_loop failing (x # xs) c)"
        unfolding e by (rule evicted_delete)
      moreover from False d n have "needed failing (x # pre) c" by (rule needed_delete)
      moreover from t have "post = [] \<or> target_reached (evict_loop failing (x # xs) c)"
        unfolding e .
      ultimately show ?thesis by blast
    qed
  qed
qed

lemma evictOldFiles_split:
  assumes "currentCacheSize c > maxCacheSize c" and "initialized c"
    and "\<not> readdir_fails faults"
  shows "\<exists>pre post.
     set (pre @ post) = {f \<in> set (disk c). \<not> stat_fails faults (fname f) \<and> is_file f} \<and>
     array_sort (\<lambda>a b. mtime a - mtime b)
      (filter (\<lambda>f. \<not> stat_fails faults (fname f) \<and> is_file f) (disk c)) = pre @ post \<and>
     sorted (map mtime (pre @ post)) \<and>
     evicted (unlink_fails faults) pre c (evictOldFiles faults c) \<and>
     needed (unlink_fails faults) pre c \<and>
     (post = [] \<or> target_reached (evictOldFiles faults c))"
proof -
  let ?stats = "array_sort (\<lambda>a b. mtime a - mtime b)
      (filter (\<lambda>f. \<not> stat_fails faults (fname f) \<and> is_file f) (disk c))"
  have e: "evictOldFiles faults c = evict_loop (unlink_fails faults) ?stats c"
    using assms by (simp add: evictOldFiles_def evict_body_def Let_def)
  from evict_loop_split [of ?stats "unlink_fails faults" c] obtain pre post where
    s: "?stats = pre @ post"
    and v: "evicted (unlink_fails faults) pre c (evict_loop (unlink_fails faults) ?stats c)"
    and n: "needed (unlink_fails faults) pre c"
    and t: "post = [] \<or> target_reached (evict_loop (unlink_fails faults) ?stats c)" by blast
  have "set ?stats = {f \<in> set (disk c). \<not> stat_fails faults (fname f) \<and> is_file f}"
    by (simp add: set_array_sort)
  moreover have "sorted (map mtime ?stats)" by (rule sorted_array_sort_mtime)
  ultimately show ?thesis using s v n t unfolding e by metis
qed

lemma evictOldFiles_guard:
  "currentCacheSize c \<le> maxCacheSize c \<or> \<not> initialized c \<or> readdir_fails faults \<Longrightarrow>
   evictOldFiles faults c = c"
  by (auto simp: evictOldFiles_def evict_body_def)

lemmas cache_eval = insert3_def settle_def set_cached_def evict_body_def array_sort_def
  is_protected_def endsWith_def strip_extension_def toLowerCase_def toLowerChar_def
  cache_set_key_def no_faults_def empty_cache_def entry_def MB_def Let_def

lemma three_settled_eval:
  "three_settled =
     \<lparr>initialized = True, cache_keys = [''k1'', ''k2'', ''k3''], currentCacheSize = 9 * MB,
      maxCacheSize = 10 * MB, disk = [entry ''k1'' 1, entry ''k2'' 2, entry ''k3'' 3]\<rparr>"
  by (simp add: three_settled_def cache_eval)

lemma fourth_insert_eval:
  "insert3 ''k4'' 4 three_settled =
     (True,
      \<lparr>initialized = True, cache_keys = [''k1'', ''k2'', ''k3'', ''k4''],
       currentCacheSize = 12 * MB, maxCacheSize = 10 * MB,
       disk = [entry ''k1'' 1, entry ''k2'' 2, entry ''k3'' 3, entry ''k4'' 4]\<rparr>)"
  by (simp add: three_settled_eval cache_eval)

lemma four_settled_eval:
  "four_settled =
     \<lparr>initialized = True, cache_keys = [''k2'', ''k3'', ''k4''], currentCacheSize = 9 * MB,
      maxCacheSize = 10 * MB, disk = [entry ''k2'' 2, entry ''k3'' 3, entry ''k4'' 4]\<rparr>"
  unfolding four_settled_def fourth_insert_eval by (simp add: cache_eval)

lemma fifth_insert_eval:
  "insert3 ''k5'' 5 four_settled =
     (True,
      \<lparr>initialized = True, cache_keys = [''k2'', ''k3'', ''k4'', ''k5''],
       currentCacheSize = 12 * MB, maxCacheSize = 10 * MB,
       disk = [entry ''k2'' 2, entry ''k3'' 3, entry ''k4'' 4, entry ''k5'' 5]\<rparr>)"
  by (simp add: four_settled_eval cache_eval)

lemma fifth_written_eval:
  "fifth_written =
     \<lparr>initialized = True, cache_keys = [''k2'', ''k3'', ''k4'', ''k5''],
      currentCacheSize = 12 * MB, maxCacheSize = 10 * MB,
      disk = [entry ''k2'' 2, entry ''k3'' 3, entry ''k4'' 4, entry ''k5'' 5]\<rparr>"
  by (simp add: fifth_written_def fifth_insert_eval)

lemma fifth_evicted_eval:
  "evict_body no_faults fifth_written =
     \<lparr>initialized = True, cache_keys = [''k3'', ''k4'', ''k5''], currentCacheSize = 9 * MB,
      maxCacheSize = 10 * MB, disk = [entry ''k3'' 3, entry ''k4'' 4, entry ''k5'' 5]\<rparr>"
  unfolding fifth_written_eval by (simp add: cache_eval)

lemma four_unsettled_eval:
  "four_unsettled =
     \<lparr>initialized = True, cache_keys = [''k1'', ''k2'', ''k3'', ''k4''],
      currentCacheSize = 12 * MB, maxCacheSize = 10 * MB,
      disk = [entry ''k1'' 1, entry ''k2'' 2, entry ''k3'' 3, entry ''k4'' 4]\<rparr>"
  by (simp add: four_unsettled_def cache_eval)

lemma five_unsettled_eval:
  "five_unsettled =
     \<lparr>initialized = True, cache_keys = [''k1'', ''k2'', ''k3'', ''k4'', ''k5''],
      currentCacheSize = 15 * MB, maxCacheSize = 10 * MB,
      disk = [entry ''k1'' 1, entry ''k2'' 2, entry ''k3'' 3, entry ''k4'' 4, entry ''k5'' 5]\<rparr>"
  by (simp add: five_unsettled_def four_unsettled_eval cache_eval)

lemma five_unsettled_evicted_eval:
  "evict_body no_faults five_unsettled =
     \<lparr>initialized = True, cache_keys = [''k3'', ''k4'', ''k5''], currentCacheSize = 9 * MB,
      maxCacheSize = 10 * MB, disk = [entry ''k3'' 3, entry ''k4'' 4, entry ''k5'' 5]\<rparr>"
  unfolding five_unsettled_eval by (simp add: cache_eval)

lemma second_eviction_eval:
  "evict_body no_faults (evict_body no_faults five_unsettled) = evict_body no_faults five_unsettled"
  unfolding five_unsettled_evicted_eval by (simp add: cache_eval)

lemma sorted_append_le:
  "sorted (map k (pre @ post)) \<Longrightarrow> f \<in> set pre \<Longrightarrow> g \<in> set post \<Longrightarrow> k f \<le> (k g :: int)"
  by (auto simp: sorted_append)

text \<open>
  C1 (amended). \<open>evictOldFiles\<close> leaves the cache as it is when the running total
  does not exceed the maximum, when the cache is not initialised, and when the
  directory cannot be listed. Otherwise it goes through the regular files of the
  directory in ascending order of modification time, as long as the running total is
  above 90% of the maximum: a file is looked at only while the total is above the
  target, and the loop ends when the target is reached or no file is left. Each file
  looked at is deleted and its size taken off the running total, unless it is
  protected (a name ending in \<open>photo_metadata.json\<close>) or its \<open>unlink\<close> fails. So
  every deleted file is at most as recent as every deletable file that stays, no
  protected file is deleted, and at the end the total is at most the target or no
  deletable file is left. With a maximum of 10 MB and five entries of 3 MB inserted one
  after the other, the fourth insertion already starts an eviction. When every started
  eviction has run to its end before the next insertion begins, the eviction of the
  fourth insertion removes the oldest entry and the eviction of the fifth insertion
  removes one entry, the oldest remaining. When no eviction gets to run before the
  fifth entry is written, the first eviction that runs removes the two oldest entries
  and the second one removes nothing. Either way the three newest entries stay, 9 MB
  in total.
\<close>

theorem evictOldFiles_oldest_first:
  "(currentCacheSize c \<le> maxCacheSize c \<or> \<not> initialized c \<or> readdir_fails faults
      \<longrightarrow> evictOldFiles faults c = c) \<and>
   (maxCacheSize c < currentCacheSize c \<and> initialized c \<and> \<not> readdir_fails faults \<and>
    distinct (map fname (disk c)) \<longrightarrow>
      (\<exists>pre post.
         array_sort (\<lambda>a b. mtime a - mtime b)
           (filter (\<lambda>f. \<not> stat_fails faults (fname f) \<and> is_file f) (disk c)) = pre @ post \<and>
         sorted (map mtime (pre @ post)) \<and>
         disk (evictOldFiles faults c) =
           filter (\<lambda>g. g \<notin> set (filter (deletable (unlink_fails faults)) pre)) (disk c) \<and>
         currentCacheSize (evictOldFiles faults c) = running_total (unlink_fails faults) pre c \<and>
         needed (unlink_fails faults) pre c \<and>
         (post = [] \<or> target_reached (evictOldFiles faults c))) \<and>
      set (disk (evictOldFiles faults c)) \<subseteq> set (disk c) \<and>
      (\<forall>f \<in> set (disk c). is_protected (fname f) \<longrightarrow> f \<in> set (disk (evictOldFiles faults c))) \<and>
      (\<forall>f \<in> set (disk c) - set (disk (evictOldFiles faults c)).
         candidate faults f \<and>
         (\<forall>g \<in> set (disk (evictOldFiles faults c)). candidate faults g \<longrightarrow> mtime f \<le> mtime g)) \<and>
      (target_reached (evictOldFiles faults c) \<or>
         (\<forall>g \<in> set (disk (evictOldFiles faults c)). \<not> candidate faults g)) \<and>
      currentCacheSize (evictOldFiles faults c) =
        currentCacheSize c - (\<Sum>f \<in> set (disk c) - set (disk (evictOldFiles faults c)). fsize f) \<and>
      maxCacheSize (evictOldFiles faults c) = maxCacheSize c) \<and>
   disk three_settled = [entry ''k1'' 1, entry ''k2'' 2, entry ''k3'' 3] \<and>
   fst (insert3 ''k4'' 4 three_settled) \<and>
   disk four_settled = [entry ''k2'' 2, entry ''k3'' 3, entry ''k4'' 4] \<and>
   fst (insert3 ''k5'' 5 four_settled) \<and>
   disk fifth_written = [entry ''k2'' 2, entry ''k3'' 3, entry ''k4'' 4, entry ''k5'' 5] \<and>
   settle (insert3 ''k5'' 5 four_settled) = evictOldFiles no_faults fifth_written \<and>
   disk (settle (insert3 ''k5'' 5 four_settled)) = [entry ''k3'' 3, entry ''k4'' 4, entry ''k5'' 5] \<and>
   currentCacheSize (settle (insert3 ''k5'' 5 four_settled)) = 9 * MB \<and>
   disk five_unsettled
     = [entry ''k1'' 1, entry ''k2'' 2, entry ''k3'' 3, entry ''k4'' 4, entry ''k5'' 5] \<and>
   disk (evict_body no_faults five_unsettled) = [entry ''k3'' 3, entry ''k4'' 4, entry ''k5'' 5] \<and>
   currentCacheSize (evict_body no_faults five_unsettled) = 9 * MB \<and>
   evict_body no_faults (evict_body no_faults five_unsettled) = evict_body no_faults five_unsettled"
proof -
  let ?c' = "evictOldFiles faults c"
  let ?U = "unlink_fails faults"
  have guard: "currentCacheSize c \<le> maxCacheSize c \<or> \<not> initialized c \<or> readdir_fails faults
      \<longrightarrow> ?c' = c"
    using evictOldFiles_guard [of c faults] by blast
  have main: "(\<exists>pre post.
         array_sort (\<lambda>a b. mtime a - mtime b)
           (filter (\<lambda>f. \<not> stat_fails faults (fname f) \<and> is_file f) (disk c)) = pre @ post \<and>
         sorted (map mtime (pre @ post)) \<and>
         disk ?c' = filter (\<lambda>g. g \<notin> set (filter (deletable ?U) pre)) (disk c) \<and>
         currentCacheSize ?c' = running_total ?U pre c \<and>
         needed ?U pre c \<and>
         (post = [] \<or> target_reached ?c')) \<and>
      set (disk ?c') \<subseteq> set (disk c) \<and>
      (\<forall>f \<in> set (disk c). is_protected (fname f) \<longrightarrow> f \<in> set (disk ?c')) \<and>
      (\<forall>f \<in> set (disk c) - set (disk ?c').
         candidate faults f \<and>
         (\<forall>g \<in> set (disk ?c'). candidate faults g \<longrightarrow> mtime f \<le> mtime g)) \<and>
      (target_reached ?c' \<or> (\<forall>g \<in> set (disk ?c'). \<not> candidate faults g)) \<and>
      currentCacheSize ?c' =
        currentCacheSize c - (\<Sum>f \<in> set (disk c) - set (disk ?c'). fsize f) \<and>
      maxCacheSize ?c' = maxCacheSize c"
    if over: "maxCacheSize c < currentCacheSize c" and init: "initialized c"
      and rd: "\<not> readdir_fails faults" and dn: "distinct (map fname (disk c))"
  proof -
    from evictOldFiles_split [OF over init rd] obtain pre post where
      st: "set (pre @ post) = {f \<in> set (disk c). \<not> stat_fails faults (fname f) \<and> is_file f}"
      and sp: "array_sort (\<lambda>a b. mtime a - mtime b)
        (filter (\<lambda>f. \<not> stat_fails faults (fname f) \<and> is_file f) (disk c)) = pre @ post"
      and so: "sorted (map mtime (pre @ post))"
      and ev: "evicted ?U pre c ?c'"
      and nd: "needed ?U pre c"
      and tr: "post = [] \<or> target_reached ?c'" by blast
    from ev have dk: "disk ?c' = filter (\<lambda>g. fname g \<notin> fname ` set (filter (deletable ?U) pre)) (disk c)"
      by (simp add: evicted_def)
    from ev have tot: "currentCacheSize ?c' = running_total ?U pre c"
      and mx: "maxCacheSize ?c' = maxCacheSize c"
      by (simp_all add: evicted_def)
    have sub: "set (disk ?c') \<subseteq> set (disk c)" unfolding dk by auto
    have prot: "\<forall>f \<in> set (disk c). is_protected (fname f) \<longrightarrow> f \<in> set (disk ?c')"
      unfolding dk by (auto simp: deletable_def)
    have inj: "\<And>f g. f \<in> set (disk c) \<Longrightarrow> g \<in> set (disk c) \<Longrightarrow> fname f = fname g \<Longrightarrow> f = g"
      using dn by (meson distinct_map inj_onD)
    have stats_in: "\<And>f. f \<in> set (pre @ post) \<Longrightarrow> f \<in> set (disk c)" using st by blast
    have names: "\<And>g. g \<in> set (disk c) \<Longrightarrow>
        (fname g \<in> fname ` set (filter (deletable ?U) pre)) = (g \<in> set (filter (deletable ?U) pre))"
    proof -
      fix g assume g: "g \<in> set (disk c)"
      show "(fname g \<in> fname ` set (filter (deletable ?U) pre)) = (g \<in> set (filter (deletable ?U) pre))"
      proof
        assume "fname g \<in> fname ` set (filter (deletable ?U) pre)"
        then obtain f where f: "f \<in> set pre" "deletable ?U f" "fname f = fname g" by auto
        from f(1) have "f \<in> set (disk c)" using stats_in by simp
        with g f(3) have "f = g" using inj by blast
        with f show "g \<in> set (filter (deletable ?U) pre)" by simp
      next
        assume "g \<in> set (filter (deletable ?U) pre)"
        then show "fname g \<in> fname ` set (filter (deletable ?U) pre)" by (rule imageI)
      qed
    qed
    have dk2: "disk ?c' = filter (\<lambda>g. g \<notin> set (filter (deletable ?U) pre)) (disk c)"
      unfolding dk by (rule filter_cong [OF refl]) (simp only: names)
    have removed: "\<And>f. f \<in> set (disk c) \<Longrightarrow> f \<notin> set (disk ?c') \<Longrightarrow>
         f \<in> set pre \<and> deletable ?U f"
      unfolding dk2 by simp
    have kept: "\<And>g. g \<in> set (disk ?c') \<Longrightarrow> candidate faults g \<Longrightarrow> g \<in> set post"
    proof -
      fix g assume a: "g \<in> set (disk ?c')" "candidate faults g"
      from a(1) sub have gd: "g \<in> set (disk c)" by blast
      with a(2) st have "g \<in> set (pre @ post)" by (simp add: candidate_def)
      moreover have "g \<notin> set pre"
      proof
        assume "g \<in> set pre"
        with a(2) have "g \<in> set (filter (deletable ?U) pre)"
          by (simp add: candidate_def deletable_def)
        with a(1) show False unfolding dk2 by simp
      qed
      ultimately show "g \<in> set post" by simp
    qed
    have order: "\<forall>f \<in> set (disk c) - set (disk ?c').
         candidate faults f \<and>
         (\<forall>g \<in> set (disk ?c'). candidate faults g \<longrightarrow> mtime f \<le> mtime g)"
    proof (intro ballI conjI impI)
      fix f assume a: "f \<in> set (disk c) - set (disk ?c')"
      with removed have p: "f \<in> set pre" "deletable ?U f" by auto
      from p(1) st have "\<not> stat_fails faults (fname f) \<and> is_file f" by auto
      with p(2) show "candidate faults f" by (simp add: candidate_def deletable_def)
      fix g assume "g \<in> set (disk ?c')" "candidate faults g"
      with kept have "g \<in> set post" by blast
      with so p(1) show "mtime f \<le> mtime g" by (rule sorted_append_le)
    qed
    have stop: "target_reached ?c' \<or> (\<forall>g \<in> set (disk ?c'). \<not> candidate faults g)"
      using tr kept by auto
    have dd: "distinct (disk c)" using dn by (simp add: distinct_map)
    let ?stats = "filter (\<lambda>f. \<not> stat_fails faults (fname f) \<and> is_file f) (disk c)"
    have ds: "distinct ?stats" using dd by simp
    have ms: "mset (array_sort (\<lambda>a b. mtime a - mtime b) ?stats) = mset ?stats"
      by (rule mset_array_sort)
    have "distinct (array_sort (\<lambda>a b. mtime a - mtime b) ?stats)"
      using mset_eq_imp_distinct_iff [OF ms] ds by blast
    then have "distinct (pre @ post)" by (simp only: sp)
    then have dp: "distinct (filter (deletable ?U) pre)" by simp
    have rs: "set (filter (deletable ?U) pre) = set (disk c) - set (disk ?c')"
    proof
      show "set (filter (deletable ?U) pre) \<subseteq> set (disk c) - set (disk ?c')"
      proof
        fix f assume a: "f \<in> set (filter (deletable ?U) pre)"
        then have "f \<in> set (disk c)" using stats_in by simp
        moreover from a have "f \<notin> set (disk ?c')" unfolding dk2 by simp
        ultimately show "f \<in> set (disk c) - set (disk ?c')" by simp
      qed
      show "set (disk c) - set (disk ?c') \<subseteq> set (filter (deletable ?U) pre)"
        using removed by auto
    qed
    have "sum_list (map fsize (filter (deletable ?U) pre))
        = (\<Sum>f \<in> set (disk c) - set (disk ?c'). fsize f)"
      using dp rs by (metis sum_list_distinct_conv_sum_set)
    with tot have acct: "currentCacheSize ?c' =
        currentCacheSize c - (\<Sum>f \<in> set (disk c) - set (disk ?c'). fsize f)"
      by (simp add: running_total_def)
    from sp so dk2 tot nd tr have ex: "\<exists>pre post.
         array_sort (\<lambda>a b. mtime a - mtime b)
           (filter (\<lambda>f. \<not> stat_fails faults (fname f) \<and> is_file f) (disk c)) = pre @ post \<and>
         sorted (map mtime (pre @ post)) \<and>
         disk ?c' = filter (\<lambda>g. g \<notin> set (filter (deletable ?U) pre)) (disk c) \<and>
         currentCacheSize ?c' = running_total ?U pre c \<and>
         needed ?U pre c \<and>
         (post = [] \<or> target_reached ?c')" by blast
    from ex sub prot order stop acct mx show ?thesis by blast
  qed
  have s1: "disk three_settled = [entry ''k1'' 1, entry ''k2'' 2, entry ''k3'' 3]"
    by (simp add: three_settled_eval)
  have s2: "fst (insert3 ''k4'' 4 three_settled)" by (simp add: fourth_insert_eval)
  have s3: "disk four_settled = [entry ''k2'' 2, entry ''k3'' 3, entry ''k4'' 4]"
    by (simp add: four_settled_eval)
  have s4: "fst (insert3 ''k5'' 5 four_settled)" by (simp add: fifth_insert_eval)
  have s5: "disk fifth_written = [entry ''k2'' 2, entry ''k3'' 3, entry ''k4'' 4, entry ''k5'' 5]"
    by (simp add: fifth_written_eval)
  have st: "settle (insert3 ''k5'' 5 four_settled) = evict_body no_faults fifth_written"
    by (simp add: settle_def fifth_insert_eval fifth_written_eval)
  have ev: "evictOldFiles no_faults fifth_written = evict_body no_faults fifth_written"
    by (simp add: evictOldFiles_def fifth_written_eval MB_def)
  from st ev have s6: "settle (insert3 ''k5'' 5 four_settled) = evictOldFiles no_faults fifth_written"
    by simp
  have s7: "disk (settle (insert3 ''k5'' 5 four_settled)) = [entry ''k3'' 3, entry ''k4'' 4, entry ''k5'' 5]"
    unfolding st by (simp add: fifth_evicted_eval)
  have s8: "currentCacheSize (settle (insert3 ''k5'' 5 four_settled)) = 9 * MB"
    unfolding st by (simp add: fifth_evicted_eval)
  have u1: "disk five_unsettled
     = [entry ''k1'' 1, entry ''k2'' 2, entry ''k3'' 3, entry ''k4'' 4, entry ''k5'' 5]"
    by (simp add: five_unsettled_eval)
  have u2: "disk (evict_body no_faults five_unsettled) = [entry ''k3'' 3, entry ''k4'' 4, entry ''k5'' 5]"
    by (simp add: five_unsettled_evicted_eval)
  have u3: "currentCacheSize (evict_body no_faults five_unsettled) = 9 * MB"
    by (simp add: five_unsettled_evicted_eval)
  note u4 = second_eviction_eval
  from guard main s1 s2 s3 s4 s5 s6 s7 s8 u1 u2 u3 u4 show ?thesis by blast
qed

theorem evictOldFiles_oldest_first_witness:
  "maxCacheSize fifth_written < currentCacheSize fifth_written \<and>
   initialized fifth_written \<and>
   distinct (map fname (disk fifth_written)) \<and>
   set (disk (evictOldFiles no_faults fifth_written)) \<subseteq> set (disk fifth_written) \<and>
   disk (evictOldFiles no_faults fifth_written) = [entry ''k3'' 3, entry ''k4'' 4, entry ''k5'' 5] \<and>
   currentCacheSize (evictOldFiles no_faults fifth_written) = 9 * MB \<and>
   target_reached (evictOldFiles no_faults fifth_written) \<and>
   evictOldFiles no_faults four_settled = four_settled"
proof -
  have h1: "maxCacheSize fifth_written < currentCacheSize fifth_written"
    by (simp add: fifth_written_eval MB_def)
  have h2: "initialized fifth_written"
    by (simp add: fifth_written_eval)
  have h3: "\<not> readdir_fails no_faults" by (simp add: no_faults_def)
  have h4: "distinct (map fname (disk fifth_written))"
    by (simp add: fifth_written_eval entry_def)
  have h5: "currentCacheSize four_settled \<le> maxCacheSize four_settled"
    by (simp add: four_settled_eval MB_def)
  note t = evictOldFiles_oldest_first [of fifth_written no_faults]
  from t h1 h2 h3 h4
  have a: "set (disk (evictOldFiles no_faults fifth_written)) \<subseteq> set (disk fifth_written)"
    by blast
  from t have b: "disk (evictOldFiles no_faults fifth_written)
      = disk (settle (insert3 ''k5'' 5 four_settled))" by simp
  from t have b': "disk (settle (insert3 ''k5'' 5 four_settled))
      = [entry ''k3'' 3, entry ''k4'' 4, entry ''k5'' 5]" by blast
  from t have c: "currentCacheSize (evictOldFiles no_faults fifth_written)
      = currentCacheSize (settle (insert3 ''k5'' 5 four_settled))" by simp
  from t have c': "currentCacheSize (settle (insert3 ''k5'' 5 four_settled)) = 9 * MB" by blast
  from c c' h1 have d: "target_reached (evictOldFiles no_faults fifth_written)"
    using t h2 h3 h4 by (simp add: target_reached_def fifth_written_eval MB_def)
  from evictOldFiles_oldest_first [of four_settled no_faults] h5
  have e: "evictOldFiles no_faults four_settled = four_settled" by blast
  from h1 h2 h4 a b b' c c' d e show ?thesis by simp
qed

text \<open>
  C1 as stated fails twice. In its own scenario, when every eviction has finished
  before the next insertion, the eviction triggered by the fifth insertion finds only
  the entries 2 to 5 (the first was evicted after the fourth insertion) and removes
  one entry, not two. And the loop can end above the target: with a protected file of
  10 MB beside one entry of 3 MB, the entry is deleted, the protected file is skipped,
  and the running total stays at 10 MB, above 9 MB.
\<close>

theorem evictOldFiles_fifth_insertion_counterexample:
  "disk four_settled = [entry ''k2'' 2, entry ''k3'' 3, entry ''k4'' 4] \<and>
   insert3 ''k5'' 5 four_settled = (True, fifth_written) \<and>
   disk fifth_written = [entry ''k2'' 2, entry ''k3'' 3, entry ''k4'' 4, entry ''k5'' 5] \<and>
   disk (evictOldFiles no_faults fifth_written) = [entry ''k3'' 3, entry ''k4'' 4, entry ''k5'' 5] \<and>
   maxCacheSize protected_cache < currentCacheSize protected_cache \<and>
   disk (evictOldFiles no_faults protected_cache)
     = [\<lparr>fname = ''photo_metadata.json'', fsize = 10 * MB, mtime = 0, is_file = True\<rparr>] \<and>
   currentCacheSize (evictOldFiles no_faults protected_cache) = 10 * MB \<and>
   \<not> target_reached (evictOldFiles no_faults protected_cache)"
proof -
  have ev: "evictOldFiles no_faults fifth_written = evict_body no_faults fifth_written"
    by (simp add: evictOldFiles_def fifth_written_eval MB_def)
  have p: "evictOldFiles no_faults protected_cache =
     \<lparr>initialized = True, cache_keys = [], currentCacheSize = 10 * MB, maxCacheSize = 10 * MB,
      disk = [\<lparr>fname = ''photo_metadata.json'', fsize = 10 * MB, mtime = 0, is_file = True\<rparr>]\<rparr>"
    by (simp add: protected_cache_def evictOldFiles_def cache_eval)
  have i: "insert3 ''k5'' 5 four_settled = (True, fifth_written)"
    by (simp add: fifth_insert_eval fifth_written_eval)
  show ?thesis
    unfolding p ev fifth_evicted_eval i
    by (simp add: four_settled_eval fifth_written_eval protected_cache_def target_reached_def MB_def)
qed

subsection \<open>Metadata database: save and load\<close>

lemma path_tmp_neq [simp]: "p \<noteq> p @ ''.tmp''" "p @ ''.tmp'' \<noteq> p"
  "p \<noteq> p @ ''.backup''" "p @ ''.backup'' \<noteq> p" "p @ ''.tmp'' \<noteq> p @ ''.backup''"
  "p @ ''.backup'' \<noteq> p @ ''.tmp''"
  by simp_all

lemma save_backup_main: "save_backup faults p fs p = fs p"
  by (simp add: save_backup_def)

lemma save_write_main: "save_write faults p jsonData fs p = fs p"
  by (simp add: save_write_def)

lemma save_cleanup_main: "save_cleanup faults p fs p = fs p"
  by (simp add: save_cleanup_def)

lemma save_rename_main:
  "save_rename faults p (save_write faults p jsonData fs) p =
     (if temp_write_fails faults \<or> rename_fails faults then fs p else Some jsonData)"
  by (simp add: save_rename_def save_cleanup_main save_write_main) (simp add: save_write_def)

lemma saveMetadataDatabase_main:
  "saveMetadataDatabase pl faults (Some p) database fs p =
     (if temp_write_fails faults \<or> rename_fails faults then fs p
      else Some (JSON_stringify pl database))"
  by (simp add: saveMetadataDatabase_def save_rename_main save_backup_main)

lemma loadMetadataDatabase_returns:
  "\<exists>database fs'. loadMetadataDatabase pl faults metadataPath fs = Inr (database, fs')"
  by (cases metadataPath)
     (auto simp: loadMetadataDatabase_def split: sum.splits)

text \<open>
  C8 (amended). Loading the metadata database never raises. Without a file path, and
  when the database file does not exist or cannot be read, the empty database is
  returned. When the content of the file is empty or white space only, the empty
  database is returned at once, and the backup is not consulted. When the content
  fails to parse, the sibling backup file is tried: a backup that is missing,
  unreadable, blank or unparsable gives the empty database, and a backup that parses
  is returned and saved to the real path.
\<close>

theorem loadMetadataDatabase_recovers:
  "(\<exists>database fs'. loadMetadataDatabase pl faults metadataPath fs = Inr (database, fs')) \<and>
   loadMetadataDatabase pl faults None fs = Inr (JObj Map.empty, fs) \<and>
   loadMetadataDatabase pl faults (Some p) fs = Inr
     (case fs p of
        None \<Rightarrow> (JObj Map.empty, fs)
      | Some data \<Rightarrow>
          if main_read_fails faults \<or> trim data = [] then (JObj Map.empty, fs)
          else (case JSON_parse pl data of
                  Some database \<Rightarrow> (database, fs)
                | None \<Rightarrow>
                    (case fs (p @ ''.backup'') of
                       None \<Rightarrow> (JObj Map.empty, fs)
                     | Some backupData \<Rightarrow>
                         if backup_read_fails faults \<or> trim backupData = [] then (JObj Map.empty, fs)
                         else (case JSON_parse pl backupData of
                                 None \<Rightarrow> (JObj Map.empty, fs)
                               | Some backupDb \<Rightarrow>
                                   (backupDb,
                                    saveMetadataDatabase pl (restore_faults faults) (Some p)
                                      backupDb fs)))))"
proof -
  have a: "\<exists>database fs'. loadMetadataDatabase pl faults metadataPath fs = Inr (database, fs')"
    by (rule loadMetadataDatabase_returns)
  have b: "loadMetadataDatabase pl faults None fs = Inr (JObj Map.empty, fs)"
    by (simp add: loadMetadataDatabase_def)
  have c: "loadMetadataDatabase pl faults (Some p) fs = Inr
     (case fs p of
        None \<Rightarrow> (JObj Map.empty, fs)
      | Some data \<Rightarrow>
          if main_read_fails faults \<or> trim data = [] then (JObj Map.empty, fs)
          else (case JSON_parse pl data of
                  Some database \<Rightarrow> (database, fs)
                | None \<Rightarrow>
                    (case fs (p @ ''.backup'') of
                       None \<Rightarrow> (JObj Map.empty, fs)
                     | Some backupData \<Rightarrow>
                         if backup_read_fails faults \<or> trim backupData = [] then (JObj Map.empty, fs)
                         else (case JSON_parse pl backupData of
                                 None \<Rightarrow> (JObj Map.empty, fs)
                               | Some backupDb \<Rightarrow>
                                   (backupDb,
                                    saveMetadataDatabase pl (restore_faults faults) (Some p)
                                      backupDb fs)))))"
    by (auto simp: loadMetadataDatabase_def load_try_def load_from_backup_def readFile_def
          split: option.splits)
  from a b c show ?thesis by blast
qed

lemma trim_samples:
  "trim '' '' = []" "trim ''{}'' = ''{}''" "trim sample_text = sample_text"
  "trim ''{7_0: {loc'' = ''{7_0: {loc''"
  by (simp_all add: trim_def is_space_def sample_text_def)

lemma sample_text_neq: "sample_text \<noteq> ''{}''" "sample_text \<noteq> []" "''{7_0: {loc'' \<noteq> sample_text"
  by (simp_all add: sample_text_def)

theorem loadMetadataDatabase_recovers_witness:
  "loadMetadataDatabase sample_platform no_load_faults (Some db_path) truncated_db_disk
     = Inr (sample_db,
            saveMetadataDatabase sample_platform no_save_faults (Some db_path) sample_db
              truncated_db_disk) \<and>
   saveMetadataDatabase sample_platform no_save_faults (Some db_path) sample_db
     truncated_db_disk db_path = Some sample_text \<and>
   loadMetadataDatabase sample_platform no_load_faults (Some db_path) Map.empty
     = Inr (JObj Map.empty, Map.empty)"
proof -
  note r = loadMetadataDatabase_recovers [of sample_platform no_load_faults "Some db_path"]
  from r [of truncated_db_disk db_path]
  have a: "loadMetadataDatabase sample_platform no_load_faults (Some db_path) truncated_db_disk
     = Inr (sample_db,
            saveMetadataDatabase sample_platform no_save_faults (Some db_path) sample_db
              truncated_db_disk)"
    by (simp add: truncated_db_disk_def db_path_def no_load_faults_def sample_platform_def
          trim_samples sample_text_neq)
  have b: "saveMetadataDatabase sample_platform no_save_faults (Some db_path) sample_db
     truncated_db_disk db_path = Some sample_text"
    by (simp add: saveMetadataDatabase_main no_save_faults_def sample_platform_def sample_db_def)
  from r [of Map.empty db_path]
  have c: "loadMetadataDatabase sample_platform no_load_faults (Some db_path) Map.empty
     = Inr (JObj Map.empty, Map.empty)" by simp
  from a b c show ?thesis by simp
qed

text \<open>
  C8 as stated fails on a blank database file: with a file holding one space and a
  backup that parses to a database with one record, the empty database is returned
  and the backup plays no part.
\<close>

theorem loadMetadataDatabase_blank_counterexample:
  "blank_db_disk db_path = Some '' '' \<and>
   blank_db_disk (db_path @ ''.backup'') = Some sample_text \<and>
   JSON_parse sample_platform sample_text = Some sample_db \<and>
   get_property sample_db ''7_0'' = Inr (Some sample_entry) \<and>
   loadMetadataDatabase sample_platform no_load_faults (Some db_path) blank_db_disk
     = Inr (JObj Map.empty, blank_db_disk)"
  by (simp add: blank_db_disk_def db_path_def sample_platform_def sample_db_def get_property_def
        loadMetadataDatabase_def load_try_def readFile_def no_load_faults_def
        trim_samples sample_text_neq)

subsection \<open>Saves that overlap\<close>

text \<open>
  A call of \<open>saveMetadataDatabase\<close> that runs alone, on a well formed file system:
  after each of its steps the real path holds what it held before or the complete new
  content, and at the end the files are those that the function above computes.
\<close>

lemma wf_distinct:
  "wf_vfs v \<Longrightarrow> names v p = Some i \<Longrightarrow> names v q = Some j \<Longrightarrow> p \<noteq> q \<Longrightarrow> i \<noteq> j"
  by (auto simp: wf_vfs_def inj_on_def dom_def)

lemma wf_fresh: "wf_vfs v \<Longrightarrow> names v p = Some i \<Longrightarrow> i \<noteq> next_inode v"
  by (force simp: wf_vfs_def)

lemma read_open_truncate:
  assumes "wf_vfs v"
  shows "fs_read (snd (fs_open_truncate q v)) = (fs_read v)(q \<mapsto> [])"
proof
  fix r
  show "fs_read (snd (fs_open_truncate q v)) r = ((fs_read v)(q \<mapsto> [])) r"
    using wf_distinct [OF assms, of r _ q] wf_fresh [OF assms, of r]
    by (cases "names v q"; cases "names v r")
       (auto simp: fs_read_def fs_open_truncate_def)
qed

lemma wf_open_truncate:
  assumes "wf_vfs v"
  shows "wf_vfs (snd (fs_open_truncate q v))"
proof (cases "names v q")
  case None
  have "inj_on ((names v)(q \<mapsto> next_inode v)) (dom ((names v)(q \<mapsto> next_inode v)))"
    using assms wf_fresh [OF assms]
    by (fastforce simp: wf_vfs_def inj_on_def dom_def split: if_splits)
  moreover have "\<forall>p i. ((names v)(q \<mapsto> next_inode v)) p = Some i \<longrightarrow> i < Suc (next_inode v)"
    using assms by (auto simp: wf_vfs_def less_Suc_eq)
  ultimately show ?thesis using None by (simp add: fs_open_truncate_def wf_vfs_def)
next
  case (Some i)
  with assms show ?thesis by (simp add: fs_open_truncate_def wf_vfs_def)
qed

lemma fd_open_truncate:
  "names (snd (fs_open_truncate q v)) q = Some (fst (fs_open_truncate q v))"
  "contents (snd (fs_open_truncate q v)) (fst (fs_open_truncate q v)) = []"
  by (cases "names v q"; simp add: fs_open_truncate_def)+

lemma read_write:
  assumes "wf_vfs v" and "names v q = Some fd"
  shows "fs_read (fs_write fd buffer v) = (fs_read v)(q \<mapsto> buffer @ drop (length buffer) (contents v fd))"
proof
  fix r
  show "fs_read (fs_write fd buffer v) r
      = ((fs_read v)(q \<mapsto> buffer @ drop (length buffer) (contents v fd))) r"
    using wf_distinct [OF assms(1), of r _ q fd] assms(2)
    by (cases "names v r") (auto simp: fs_read_def fs_write_def)
qed

lemma wf_write: "wf_vfs v \<Longrightarrow> wf_vfs (fs_write fd buffer v)"
  by (simp add: wf_vfs_def fs_write_def)

lemma names_write: "names (fs_write fd buffer v) = names v"
  by (simp add: fs_write_def)

lemma read_copyFile:
  assumes "wf_vfs v" and "names v src = Some i"
  shows "\<exists>v'. fs_copyFile src dest v = Some v' \<and> wf_vfs v' \<and>
           fs_read v' = (fs_read v)(dest := fs_read v src)"
proof -
  let ?o = "fs_open_truncate dest v"
  have c: "fs_copyFile src dest v = Some (fs_write (fst ?o) (contents v i) (snd ?o))"
    using assms(2) by (simp add: fs_copyFile_def case_prod_beta)
  have w: "wf_vfs (fs_write (fst ?o) (contents v i) (snd ?o))"
    by (intro wf_write wf_open_truncate assms(1))
  have "fs_read (fs_write (fst ?o) (contents v i) (snd ?o))
      = (fs_read (snd ?o))(dest \<mapsto> contents v i @ drop (length (contents v i)) [])"
    using read_write [OF wf_open_truncate [OF assms(1)] fd_open_truncate(1), of dest "contents v i"]
    by (simp add: fd_open_truncate(2))
  also have "\<dots> = (fs_read v)(dest := fs_read v src)"
    using assms(2) by (simp add: read_open_truncate [OF assms(1)] fs_read_def)
  finally show ?thesis using c w by blast
qed

lemma read_rename:
  assumes "names v src = Some i"
  shows "\<exists>v'. fs_rename src dest v = Some v' \<and>
           fs_read v' = ((fs_read v)(dest := fs_read v src))(src := None)"
  using assms by (auto simp: fs_rename_def fs_read_def)

lemma alone_trace:
  assumes "wf_vfs v"
  shows "map (\<lambda>state. fs_read (snd state)) (run_schedule alone ([start_save p buffer], v))
       = alone_reads p buffer (fs_read v)"
proof (cases "names v p")
  case None
  let ?o = "fs_open_truncate (p @ ''.tmp'') v"
  let ?w = "fs_write (fst ?o) buffer (snd ?o)"
  have n: "fs_read v p = None" using None by (simp add: fs_read_def)
  have r2: "fs_read (snd ?o) = (fs_read v)(p @ ''.tmp'' \<mapsto> [])"
    by (rule read_open_truncate [OF assms])
  have r3: "fs_read ?w = (fs_read v)(p @ ''.tmp'' \<mapsto> buffer)"
    using read_write [OF wf_open_truncate [OF assms] fd_open_truncate(1), of "p @ ''.tmp''" buffer]
    by (simp add: fd_open_truncate(2) r2)
  have "names ?w (p @ ''.tmp'') = Some (fst ?o)"
    by (simp add: names_write fd_open_truncate(1))
  from read_rename [OF this, of p] obtain v4 where
    v4: "fs_rename (p @ ''.tmp'') p ?w = Some v4"
    and r4: "fs_read v4 = ((fs_read ?w)(p := fs_read ?w (p @ ''.tmp'')))(p @ ''.tmp'' := None)"
    by blast
  show ?thesis
    using None n v4
    by (simp add: alone_def start_save_def step_call_def save_step_def case_prod_beta
          alone_reads_def Let_def r2 r3 r4)
next
  case (Some i)
  have n: "fs_read v p = Some (contents v i)" using Some by (simp add: fs_read_def)
  from read_copyFile [OF assms Some, of "p @ ''.backup''"] obtain v1 where
    v1: "fs_copyFile p (p @ ''.backup'') v = Some v1" and w1: "wf_vfs v1"
    and r1: "fs_read v1 = (fs_read v)(p @ ''.backup'' := fs_read v p)" by blast
  let ?o = "fs_open_truncate (p @ ''.tmp'') v1"
  let ?w = "fs_write (fst ?o) buffer (snd ?o)"
  have r2: "fs_read (snd ?o) = (fs_read v1)(p @ ''.tmp'' \<mapsto> [])"
    by (rule read_open_truncate [OF w1])
  have r3: "fs_read ?w = (fs_read v1)(p @ ''.tmp'' \<mapsto> buffer)"
    using read_write [OF wf_open_truncate [OF w1] fd_open_truncate(1), of "p @ ''.tmp''" buffer]
    by (simp add: fd_open_truncate(2) r2)
  have "names ?w (p @ ''.tmp'') = Some (fst ?o)"
    by (simp add: names_write fd_open_truncate(1))
  from read_rename [OF this, of p] obtain v4 where
    v4: "fs_rename (p @ ''.tmp'') p ?w = Some v4"
    and r4: "fs_read v4 = ((fs_read ?w)(p := fs_read ?w (p @ ''.tmp'')))(p @ ''.tmp'' := None)"
    by blast
  show ?thesis
    using Some n v1 v4
    by (simp add: alone_def start_save_def step_call_def save_step_def case_prod_beta
          alone_reads_def Let_def r1 r2 r3 r4)
qed

lemma save_alone_atomic:
  assumes "wf_vfs v"
  shows "\<forall>m \<in> set (observed p (run_schedule alone ([start_save p buffer], v))).
     m = fs_read v p \<or> m = Some buffer"
proof -
  have "observed p (run_schedule alone ([start_save p buffer], v))
      = map (\<lambda>fs. fs p) (alone_reads p buffer (fs_read v))"
    unfolding alone_trace [OF assms, symmetric] by (simp add: observed_def comp_def)
  then show ?thesis by (auto simp: alone_reads_def Let_def split: if_splits)
qed

lemma save_alone_is_saveMetadataDatabase:
  assumes "wf_vfs v"
  shows "fs_read (snd (last (run_schedule alone ([start_save p (JSON_stringify pl database)], v))))
       = saveMetadataDatabase pl no_save_faults (Some p) database (fs_read v)"
proof -
  let ?t = "run_schedule alone ([start_save p (JSON_stringify pl database)], v)"
  have ne: "?t \<noteq> []" by (simp add: alone_def)
  have "fs_read (snd (last ?t)) = last (map (\<lambda>state. fs_read (snd state)) ?t)"
    using ne by (simp add: last_map)
  also have "\<dots> = last (alone_reads p (JSON_stringify pl database) (fs_read v))"
    by (simp only: alone_trace [OF assms])
  also have "\<dots> = saveMetadataDatabase pl no_save_faults (Some p) database (fs_read v)"
    by (auto simp: alone_reads_def Let_def saveMetadataDatabase_def save_rename_def save_write_def
          save_backup_def no_save_faults_def)
  finally show ?thesis .
qed


lemmas fs_defs = fs_read_def fs_open_truncate_def fs_write_def fs_copyFile_def fs_rename_def
  fs_unlink_def

text \<open>
  C2, evaluated. Two saves of the same database file overlap. The first has written
  the temporary file when the second opens it, which empties it; the first then
  renames the empty file over the real path. A reader finds the database file empty
  at that moment, which \<open>loadMetadataDatabase\<close> takes for the empty database; the
  first save has returned without an error. The second save then writes its content
  through the file it opened, which is now the database file, fails to rename the
  temporary file, which is gone, and ends in its handler.
\<close>

theorem saveMetadataDatabase_overlap_exposes_empty_file:
  "observed db_path (run_schedule overlap (two_saves, one_file_disk)) =
     [Some ''{old}'', Some ''{old}'', Some ''{old}'', Some ''{old}'', Some ''{old}'',
      Some ''{old}'', Some ''{old}'', Some [], Some ''{second}'', Some ''{second}'',
      Some ''{second}''] \<and>
   map (\<lambda>state. pc (fst state ! 0)) (run_schedule overlap (two_saves, one_file_disk)) =
     [AtCopyFile, AtOpen, AtWrite 2, AtRename, AtRename, AtRename, AtRename,
      Returned, Returned, Returned, Returned] \<and>
   map (\<lambda>state. pc (fst state ! 1)) (run_schedule overlap (two_saves, one_file_disk)) =
     [AtAccess, AtAccess, AtAccess, AtAccess, AtCopyFile, AtOpen, AtWrite 2,
      AtWrite 2, AtRename, AtUnlink, Returned] \<and>
   loadMetadataDatabase sample_platform no_load_faults (Some db_path)
       (fs_read (snd (run_schedule overlap (two_saves, one_file_disk) ! 7)))
     = Inr (JObj Map.empty, fs_read (snd (run_schedule overlap (two_saves, one_file_disk) ! 7)))"
proof -
  let ?trace = "run_schedule overlap (two_saves, one_file_disk)"
  have a: "observed db_path ?trace =
     [Some ''{old}'', Some ''{old}'', Some ''{old}'', Some ''{old}'', Some ''{old}'',
      Some ''{old}'', Some ''{old}'', Some [], Some ''{second}'', Some ''{second}'',
      Some ''{second}'']"
    by (simp add: observed_def overlap_def two_saves_def one_file_disk_def start_save_def
          step_call_def save_step_def fs_defs db_path_def Let_def)
  have b: "map (\<lambda>state. pc (fst state ! 0)) ?trace =
     [AtCopyFile, AtOpen, AtWrite 2, AtRename, AtRename, AtRename, AtRename,
      Returned, Returned, Returned, Returned]"
    by (simp add: overlap_def two_saves_def one_file_disk_def start_save_def
          step_call_def save_step_def fs_defs db_path_def Let_def)
  have b': "map (\<lambda>state. pc (fst state ! 1)) ?trace =
     [AtAccess, AtAccess, AtAccess, AtAccess, AtCopyFile, AtOpen, AtWrite 2,
      AtWrite 2, AtRename, AtUnlink, Returned]"
    by (simp add: overlap_def two_saves_def one_file_disk_def start_save_def
          step_call_def save_step_def fs_defs db_path_def Let_def)
  have "length ?trace = 11" by (simp add: overlap_def)
  then have "observed db_path ?trace ! 7 = fs_read (snd (?trace ! 7)) db_path"
    by (simp add: observed_def)
  with a have r: "fs_read (snd (?trace ! 7)) db_path = Some []" by simp
  have c: "loadMetadataDatabase sample_platform no_load_faults (Some db_path)
       (fs_read (snd (?trace ! 7))) = Inr (JObj Map.empty, fs_read (snd (?trace ! 7)))"
    by (simp add: loadMetadataDatabase_def load_try_def readFile_def r no_load_faults_def
          trim_def)
  from a b b' c show ?thesis by simp
qed

subsection \<open>Saving the metadata of a photo\<close>

lemma geocode_location_tasks:
  "js_truthy loc \<Longrightarrow>
   geocode_location pl key (the loc) x = x\<lparr>geocodingQueue := geocodingQueue x @ tasks_for pl key loc\<rparr>"
  by (simp add: geocode_location_def tasks_for_def enqueueGeocoding_def split: option.splits)

lemma no_tasks: "\<not> js_truthy loc \<Longrightarrow> x\<lparr>geocodingQueue := geocodingQueue x @ tasks_for pl key loc\<rparr> = x"
  by (simp add: tasks_for_def)

lemma truthy_JStr: "js_truthy (map_option JStr s) = truthy s"
  by (cases s) (simp_all add: js_truthy_def truthy_def)

lemma geocode_metadata_location:
  "truthy s \<Longrightarrow>
   geocode_location pl key (JStr (the s)) x
     = x\<lparr>geocodingQueue := geocodingQueue x @ tasks_for pl key (map_option JStr s)\<rparr>"
  using geocode_location_tasks [of "map_option JStr s" pl key x]
  by (cases s) (auto simp: truthy_def js_truthy_def)

lemma savePhotoMetadata_cases:
  "savePhotoMetadata pl lf sf photoId space metadata (x, fs) =
     (case metadataFilePath x of
        None \<Rightarrow> (x, fs)
      | Some p \<Rightarrow>
          if \<not> truthy (exif_location metadata) \<and> \<not> truthy (exif_captureDate metadata)
          then (x, fs)
          else (case loadMetadataDatabase pl lf (Some p) fs of
                  Inl error \<Rightarrow> (x, fs)
                | Inr (database, fs1) \<Rightarrow>
                    (case database of
                       JObj props \<Rightarrow>
                         (case props (database_key photoId space) of
                            None \<Rightarrow>
                              (x\<lparr>geocodingQueue := geocodingQueue x @
                                   tasks_for pl (database_key photoId space)
                                     (map_option JStr (exif_location metadata))\<rparr>,
                               saveMetadataDatabase pl sf (Some p)
                                 (JObj (props(database_key photoId space
                                          \<mapsto> new_entry photoId space metadata))) fs1)
                          | Some existingEntry \<Rightarrow>
                              if js_truthy (Some existingEntry)
                              then (x\<lparr>geocodingQueue := geocodingQueue x @
                                       (if js_truthy (property_of existingEntry ''FullAddress'')
                                        then []
                                        else tasks_for pl (database_key photoId space)
                                               (property_of existingEntry ''location''))\<rparr>,
                                    fs1)
                              else (x\<lparr>geocodingQueue := geocodingQueue x @
                                       tasks_for pl (database_key photoId space)
                                         (map_option JStr (exif_location metadata))\<rparr>,
                                    saveMetadataDatabase pl sf (Some p)
                                      (JObj (props(database_key photoId space
                                               \<mapsto> new_entry photoId space metadata))) fs1))
                     | JArr items \<Rightarrow>
                         (x\<lparr>geocodingQueue := geocodingQueue x @
                              tasks_for pl (database_key photoId space)
                                (map_option JStr (exif_location metadata))\<rparr>,
                          saveMetadataDatabase pl sf (Some p) (JArr items) fs1)
                     | _ \<Rightarrow> (x, fs1))))"
proof (cases "metadataFilePath x")
  case None
  then show ?thesis by (simp add: savePhotoMetadata_def)
next
  case (Some p)
  obtain database fs1 where l: "loadMetadataDatabase pl lf (Some p) fs = Inr (database, fs1)"
    using loadMetadataDatabase_returns by blast
  show ?thesis
  proof (cases "\<not> truthy (exif_location metadata) \<and> \<not> truthy (exif_captureDate metadata)")
    case True
    with Some show ?thesis by (simp add: savePhotoMetadata_def)
  next
    case False
    then have ne: "(\<not> truthy (exif_location metadata) \<and> \<not> truthy (exif_captureDate metadata))
        = False" by simp
    have m: "\<not> truthy (exif_location metadata) \<Longrightarrow>
       tasks_for pl (database_key photoId space) (map_option JStr (exif_location metadata)) = []"
      by (simp add: tasks_for_def truthy_JStr)
    show ?thesis
    proof (cases database)
      case (JObj props)
      show ?thesis
      proof (cases "props (database_key photoId space)")
        case None
        with Some l JObj show ?thesis
          by (cases "truthy (exif_location metadata)")
             (simp_all add: ne savePhotoMetadata_def Let_def get_property_def set_property_def
                js_truthy_def geocode_metadata_location m)
      next
        case e: (Some existingEntry)
        show ?thesis
        proof (cases "js_truthy (Some existingEntry)")
          case True
          then have nn: "existingEntry \<noteq> JNull" by (auto simp: js_truthy_def)
          obtain loc where gl: "get_property existingEntry ''location'' = Inr loc"
            using nn by (cases existingEntry) (simp_all add: get_property_def)
          obtain full where gf: "get_property existingEntry ''FullAddress'' = Inr full"
            using nn by (cases existingEntry) (simp_all add: get_property_def)
          have pl': "property_of existingEntry ''location'' = loc"
            "property_of existingEntry ''FullAddress'' = full"
            by (simp_all add: property_of_def gl gf)
          from Some l JObj e True show ?thesis
            by (cases "js_truthy loc"; cases "js_truthy full")
               (simp_all add: ne savePhotoMetadata_def Let_def get_property_def [of "JObj props"]
                  gl gf pl' geocode_location_tasks tasks_for_def)
        next
          case f: False
          with Some l JObj e show ?thesis
            by (cases "truthy (exif_location metadata)")
               (simp_all add: ne savePhotoMetadata_def Let_def get_property_def set_property_def
                  geocode_metadata_location m)
        qed
      qed
    next
      case (JArr items)
      with Some l show ?thesis
        by (cases "truthy (exif_location metadata)")
           (simp_all add: ne savePhotoMetadata_def Let_def get_property_def set_property_def
              js_truthy_def geocode_metadata_location m)
    qed (use Some l in \<open>simp_all add: ne savePhotoMetadata_def Let_def get_property_def
           set_property_def js_truthy_def\<close>)
  qed
qed

lemma load_parsed_keeps_disk:
  "fs p = Some data \<Longrightarrow> \<not> main_read_fails lf \<Longrightarrow> trim data = [] \<or> JSON_parse pl data \<noteq> None \<Longrightarrow>
   loadMetadataDatabase pl lf (Some p) fs = Inr (database, fs1) \<Longrightarrow> fs1 = fs"
  by (auto simp: loadMetadataDatabase_def load_try_def readFile_def split: if_splits)

lemma tasks_for_length: "length (tasks_for pl key loc) \<le> 1"
  by (simp add: tasks_for_def split: option.splits)

lemma saveMetadataDatabase_frame:
  "q \<noteq> p \<Longrightarrow> q \<noteq> p @ ''.tmp'' \<Longrightarrow> q \<noteq> p @ ''.backup'' \<Longrightarrow>
   saveMetadataDatabase pl sf (Some p) database fs q = fs q"
  by (simp add: saveMetadataDatabase_def save_rename_def save_cleanup_def save_write_def
        save_backup_def)

lemma loadMetadataDatabase_frame:
  "loadMetadataDatabase pl lf (Some p) fs = Inr (database, fs1) \<Longrightarrow>
   q \<noteq> p \<Longrightarrow> q \<noteq> p @ ''.tmp'' \<Longrightarrow> q \<noteq> p @ ''.backup'' \<Longrightarrow> fs1 q = fs q"
  by (auto simp: loadMetadataDatabase_def load_try_def load_from_backup_def readFile_def
        saveMetadataDatabase_frame split: option.splits if_splits sum.splits)

lemma savePhotoMetadata_frame:
  "(\<exists>ts. length ts \<le> 1 \<and>
      fst (savePhotoMetadata pl lf sf photoId space metadata (x, fs))
        = x\<lparr>geocodingQueue := geocodingQueue x @ ts\<rparr>) \<and>
   (\<forall>p q. metadataFilePath x = Some p \<and> q \<noteq> p \<and> q \<noteq> p @ ''.tmp'' \<and> q \<noteq> p @ ''.backup''
      \<longrightarrow> snd (savePhotoMetadata pl lf sf photoId space metadata (x, fs)) q = fs q) \<and>
   (metadataFilePath x = None \<longrightarrow>
      snd (savePhotoMetadata pl lf sf photoId space metadata (x, fs)) = fs)"
proof -
  let ?r = "savePhotoMetadata pl lf sf photoId space metadata (x, fs)"
  have e: "x\<lparr>geocodingQueue := geocodingQueue x @ []\<rparr> = x" by simp
  have a: "\<exists>ts. length ts \<le> 1 \<and> fst ?r = x\<lparr>geocodingQueue := geocodingQueue x @ ts\<rparr>"
  proof -
    have "fst ?r = x \<or> (\<exists>loc. fst ?r
        = x\<lparr>geocodingQueue := geocodingQueue x @ tasks_for pl (database_key photoId space) loc\<rparr>)"
      unfolding savePhotoMetadata_cases
      by (auto split: option.splits sum.splits json.splits)
    then show ?thesis
    proof
      assume "fst ?r = x"
      with e have "length ([] :: geo_task list) \<le> 1 \<and> fst ?r = x\<lparr>geocodingQueue := geocodingQueue x @ []\<rparr>"
        by simp
      then show ?thesis by blast
    next
      assume "\<exists>loc. fst ?r
        = x\<lparr>geocodingQueue := geocodingQueue x @ tasks_for pl (database_key photoId space) loc\<rparr>"
      then show ?thesis using tasks_for_length by blast
    qed
  qed
  have b: "\<forall>p q. metadataFilePath x = Some p \<and> q \<noteq> p \<and> q \<noteq> p @ ''.tmp'' \<and> q \<noteq> p @ ''.backup''
      \<longrightarrow> snd ?r q = fs q"
  proof (intro allI impI)
    fix p q assume h: "metadataFilePath x = Some p \<and> q \<noteq> p \<and> q \<noteq> p @ ''.tmp'' \<and> q \<noteq> p @ ''.backup''"
    obtain database fs1 where l: "loadMetadataDatabase pl lf (Some p) fs = Inr (database, fs1)"
      using loadMetadataDatabase_returns by blast
    from loadMetadataDatabase_frame [OF l] h have f1: "fs1 q = fs q" by blast
    from h have f2: "\<And>db. saveMetadataDatabase pl sf (Some p) db fs1 q = fs1 q"
      by (simp add: saveMetadataDatabase_frame)
    show "snd ?r q = fs q"
      unfolding savePhotoMetadata_cases using h l f1 f2
      by (auto split: option.splits json.splits)
  qed
  have c: "metadataFilePath x = None \<longrightarrow> snd ?r = fs"
    by (simp add: savePhotoMetadata_def)
  from a b c show ?thesis by blast
qed


text \<open>
  C9 (amended). With no other save of the database under way, \<open>savePhotoMetadata\<close>
  does nothing when no metadata file path is set, and nothing when the metadata carries
  neither a location nor a capture date: the database is not even loaded. Otherwise
  the database is loaded, which always returns and leaves the files as they are when
  the database file can be read and is blank or parses. When the loaded value is an
  object whose property under the key \<open>{providerId}_{spaceId || 0}\<close> is truthy,
  no save is performed and a geocoding task is enqueued exactly when that record has a
  truthy location that parses to coordinates and no truthy full address. When it is an
  object without a truthy property under the key, a new record that holds only the
  location and the capture date (besides the two ids) is stored under the key and the
  database is saved: the database file holds the new serialisation unless the write or
  the rename of the save fails, in which case it stays as it was; and a geocoding task
  is enqueued exactly when the metadata has a location that parses. When the loaded
  value is \<open>null\<close>, a boolean, a number or a string, the error of the property
  access is swallowed: nothing is stored, saved or enqueued. When it is an array, the
  array is saved again without the record, and a location that parses is enqueued.
  In every case the extractor changes by at most one task appended to its geocoding
  queue, and no file changes other than the database file and its siblings \<open>.tmp\<close>
  and \<open>.backup\<close>.
\<close>

theorem savePhotoMetadata_effect:
  "savePhotoMetadata pl lf sf photoId space metadata (x, fs) =
     (case metadataFilePath x of
        None \<Rightarrow> (x, fs)
      | Some p \<Rightarrow>
          if \<not> truthy (exif_location metadata) \<and> \<not> truthy (exif_captureDate metadata)
          then (x, fs)
          else (case loadMetadataDatabase pl lf (Some p) fs of
                  Inl error \<Rightarrow> (x, fs)
                | Inr (database, fs1) \<Rightarrow>
                    (case database of
                       JObj props \<Rightarrow>
                         if js_truthy (props (database_key photoId space))
                         then (x\<lparr>geocodingQueue := geocodingQueue x @
                                  (if js_truthy (property_of
                                        (the (props (database_key photoId space))) ''FullAddress'')
                                   then []
                                   else tasks_for pl (database_key photoId space)
                                          (property_of (the (props (database_key photoId space)))
                                             ''location''))\<rparr>,
                               fs1)
                         else (x\<lparr>geocodingQueue := geocodingQueue x @
                                  tasks_for pl (database_key photoId space)
                                    (map_option JStr (exif_location metadata))\<rparr>,
                               saveMetadataDatabase pl sf (Some p)
                                 (JObj (props(database_key photoId space
                                          \<mapsto> new_entry photoId space metadata))) fs1)
                     | JArr items \<Rightarrow>
                         (x\<lparr>geocodingQueue := geocodingQueue x @
                              tasks_for pl (database_key photoId space)
                                (map_option JStr (exif_location metadata))\<rparr>,
                          saveMetadataDatabase pl sf (Some p) (JArr items) fs1)
                     | _ \<Rightarrow> (x, fs1)))) \<and>
   (\<exists>database fs1. loadMetadataDatabase pl lf (metadataFilePath x) fs = Inr (database, fs1)) \<and>
   (\<forall>p stored fs1.
      saveMetadataDatabase pl sf (Some p) stored fs1 p =
        (if temp_write_fails sf \<or> rename_fails sf then fs1 p
         else Some (JSON_stringify pl stored))) \<and>
   (\<forall>p data database fs1.
      fs p = Some data \<and> \<not> main_read_fails lf \<and>
      (trim data = [] \<or> JSON_parse pl data \<noteq> None) \<and>
      loadMetadataDatabase pl lf (Some p) fs = Inr (database, fs1) \<longrightarrow> fs1 = fs) \<and>
   (\<exists>ts. length ts \<le> 1 \<and>
      fst (savePhotoMetadata pl lf sf photoId space metadata (x, fs))
        = x\<lparr>geocodingQueue := geocodingQueue x @ ts\<rparr>) \<and>
   (\<forall>p q. metadataFilePath x = Some p \<and> q \<noteq> p \<and> q \<noteq> p @ ''.tmp'' \<and> q \<noteq> p @ ''.backup''
      \<longrightarrow> snd (savePhotoMetadata pl lf sf photoId space metadata (x, fs)) q = fs q) \<and>
   (metadataFilePath x = None \<longrightarrow>
      snd (savePhotoMetadata pl lf sf photoId space metadata (x, fs)) = fs)"
proof -
  have a: "savePhotoMetadata pl lf sf photoId space metadata (x, fs) =
     (case metadataFilePath x of
        None \<Rightarrow> (x, fs)
      | Some p \<Rightarrow>
          if \<not> truthy (exif_location metadata) \<and> \<not> truthy (exif_captureDate metadata)
          then (x, fs)
          else (case loadMetadataDatabase pl lf (Some p) fs of
                  Inl error \<Rightarrow> (x, fs)
                | Inr (database, fs1) \<Rightarrow>
                    (case database of
                       JObj props \<Rightarrow>
                         if js_truthy (props (database_key photoId space))
                         then (x\<lparr>geocodingQueue := geocodingQueue x @
                                  (if js_truthy (property_of
                                        (the (props (database_key photoId space))) ''FullAddress'')
                                   then []
                                   else tasks_for pl (database_key photoId space)
                                          (property_of (the (props (database_key photoId space)))
                                             ''location''))\<rparr>,
                               fs1)
                         else (x\<lparr>geocodingQueue := geocodingQueue x @
                                  tasks_for pl (database_key photoId space)
                                    (map_option JStr (exif_location metadata))\<rparr>,
                               saveMetadataDatabase pl sf (Some p)
                                 (JObj (props(database_key photoId space
                                          \<mapsto> new_entry photoId space metadata))) fs1)
                     | JArr items \<Rightarrow>
                         (x\<lparr>geocodingQueue := geocodingQueue x @
                              tasks_for pl (database_key photoId space)
                                (map_option JStr (exif_location metadata))\<rparr>,
                          saveMetadataDatabase pl sf (Some p) (JArr items) fs1)
                     | _ \<Rightarrow> (x, fs1))))"
    unfolding savePhotoMetadata_cases [of pl lf sf photoId space metadata x fs]
    by (auto simp: js_truthy_def split: option.splits sum.splits json.splits)
  have b: "\<exists>database fs1. loadMetadataDatabase pl lf (metadataFilePath x) fs = Inr (database, fs1)"
    by (rule loadMetadataDatabase_returns)
  have c: "\<forall>p stored fs1.
      saveMetadataDatabase pl sf (Some p) stored fs1 p =
        (if temp_write_fails sf \<or> rename_fails sf then fs1 p
         else Some (JSON_stringify pl stored))"
    by (simp add: saveMetadataDatabase_main)
  have d: "\<forall>p data database fs1.
      fs p = Some data \<and> \<not> main_read_fails lf \<and>
      (trim data = [] \<or> JSON_parse pl data \<noteq> None) \<and>
      loadMetadataDatabase pl lf (Some p) fs = Inr (database, fs1) \<longrightarrow> fs1 = fs"
    using load_parsed_keeps_disk by blast
  note f = savePhotoMetadata_frame [of pl lf sf photoId space metadata x fs]
  from a b c d f show ?thesis by blast
qed

lemma database_key_sample: "database_key 7 (Some 0) = ''7_0''"
  by (simp add: database_key_def number_string_def nat_digits.simps)

lemma parse_sample_location:
  "parseLocation sample_platform (JStr ''51.121669, 13.772767'')
     = Some (51121669 / 1000000, 13772767 / 1000000)"
  by (simp add: parseLocation_def split_on_def trim_def is_space_def sample_platform_def Let_def)

lemma sample_tasks:
  "tasks_for sample_platform ''7_0'' (Some (JStr ''51.121669, 13.772767'')) = [sample_task]"
  by (simp add: tasks_for_def js_truthy_def parse_sample_location sample_task_def)

lemma trim_null: "trim ''null'' = ''null''"
  by (simp add: trim_def is_space_def)

lemma load_empty_db_disk:
  "loadMetadataDatabase sample_platform no_load_faults (Some db_path) empty_db_disk
     = Inr (JObj Map.empty, empty_db_disk)"
  by (simp add: loadMetadataDatabase_def load_try_def readFile_def empty_db_disk_def
        no_load_faults_def sample_platform_def trim_samples)

lemma load_sample_db_disk:
  "loadMetadataDatabase sample_platform no_load_faults (Some db_path) sample_db_disk
     = Inr (sample_db, sample_db_disk)"
  by (simp add: loadMetadataDatabase_def load_try_def readFile_def sample_db_disk_def
        no_load_faults_def sample_platform_def trim_samples sample_text_neq)

lemma load_null_db_disk:
  "loadMetadataDatabase sample_platform no_load_faults (Some db_path) null_db_disk
     = Inr (JNull, null_db_disk)"
  by (simp add: loadMetadataDatabase_def load_try_def readFile_def null_db_disk_def
        no_load_faults_def sample_platform_def trim_null sample_text_def)

lemma js_truthy_undefined: "\<not> js_truthy None"
  by (simp add: js_truthy_def)

lemma sample_entry_fields:
  "property_of sample_entry ''location'' = Some (JStr ''51.121669, 13.772767'')"
  "property_of sample_entry ''FullAddress'' = None"
  "js_truthy (Some sample_entry)"
  by (simp_all add: property_of_def get_property_def sample_entry_def js_truthy_def)

theorem savePhotoMetadata_effect_witness:
  "savePhotoMetadata sample_platform no_load_faults no_save_faults 7 (Some 0) located_exif
     (fresh_extractor, sample_db_disk)
     = (fresh_extractor\<lparr>geocodingQueue := [sample_task]\<rparr>, sample_db_disk) \<and>
   geocodingQueue (fst (savePhotoMetadata sample_platform no_load_faults no_save_faults 7 (Some 0)
     located_exif (fresh_extractor, empty_db_disk))) = [sample_task] \<and>
   snd (savePhotoMetadata sample_platform no_load_faults no_save_faults 7 (Some 0)
     located_exif (fresh_extractor, empty_db_disk)) db_path = Some sample_text \<and>
   savePhotoMetadata sample_platform no_load_faults no_save_faults 7 (Some 0) located_exif
     (fresh_extractor, null_db_disk) = (fresh_extractor, null_db_disk) \<and>
   savePhotoMetadata sample_platform no_load_faults no_save_faults 7 (Some 0) located_exif
     (fresh_extractor\<lparr>metadataFilePath := None\<rparr>, sample_db_disk)
     = (fresh_extractor\<lparr>metadataFilePath := None\<rparr>, sample_db_disk)"
proof -
  have p: "metadataFilePath fresh_extractor = Some db_path" by (simp add: fresh_extractor_def)
  have q: "geocodingQueue fresh_extractor = []" by (simp add: fresh_extractor_def)
  have t: "exif_location located_exif = Some ''51.121669, 13.772767''"
    by (simp add: located_exif_def no_exif_def)
  note k = database_key_sample
  have n: "\<not> (temp_write_fails no_save_faults \<or> rename_fails no_save_faults)"
    by (simp add: no_save_faults_def)
  note e1 = savePhotoMetadata_effect [of sample_platform no_load_faults no_save_faults 7 "Some 0"
      located_exif fresh_extractor sample_db_disk]
  have a: "savePhotoMetadata sample_platform no_load_faults no_save_faults 7 (Some 0) located_exif
     (fresh_extractor, sample_db_disk)
     = (fresh_extractor\<lparr>geocodingQueue := [sample_task]\<rparr>, sample_db_disk)"
    unfolding e1 [THEN conjunct1]
    by (simp add: p q t k truthy_def load_sample_db_disk sample_db_def sample_entry_fields
          sample_tasks js_truthy_undefined)
  note e2 = savePhotoMetadata_effect [of sample_platform no_load_faults no_save_faults 7 "Some 0"
      located_exif fresh_extractor empty_db_disk]
  have b: "savePhotoMetadata sample_platform no_load_faults no_save_faults 7 (Some 0)
     located_exif (fresh_extractor, empty_db_disk)
     = (fresh_extractor\<lparr>geocodingQueue := [sample_task]\<rparr>,
        saveMetadataDatabase sample_platform no_save_faults (Some db_path)
          (JObj [''7_0'' \<mapsto> new_entry 7 (Some 0) located_exif]) empty_db_disk)"
    unfolding e2 [THEN conjunct1]
    by (simp add: p q t k truthy_def load_empty_db_disk js_truthy_def sample_tasks)
  from e2 [THEN conjunct2, THEN conjunct2, THEN conjunct1] n
  have "saveMetadataDatabase sample_platform no_save_faults (Some db_path)
          (JObj [''7_0'' \<mapsto> new_entry 7 (Some 0) located_exif]) empty_db_disk db_path
       = Some (JSON_stringify sample_platform (JObj [''7_0'' \<mapsto> new_entry 7 (Some 0) located_exif]))"
    by simp
  then have c: "saveMetadataDatabase sample_platform no_save_faults (Some db_path)
          (JObj [''7_0'' \<mapsto> new_entry 7 (Some 0) located_exif]) empty_db_disk db_path
       = Some sample_text"
    by (simp add: sample_platform_def)
  note e3 = savePhotoMetadata_effect [of sample_platform no_load_faults no_save_faults 7 "Some 0"
      located_exif fresh_extractor null_db_disk]
  have d: "savePhotoMetadata sample_platform no_load_faults no_save_faults 7 (Some 0)
     located_exif (fresh_extractor, null_db_disk) = (fresh_extractor, null_db_disk)"
    unfolding e3 [THEN conjunct1]
    by (simp add: p t truthy_def load_null_db_disk)
  note e4 = savePhotoMetadata_effect [of sample_platform no_load_faults no_save_faults 7 "Some 0"
      located_exif "fresh_extractor\<lparr>metadataFilePath := None\<rparr>" sample_db_disk]
  have e: "savePhotoMetadata sample_platform no_load_faults no_save_faults 7 (Some 0)
     located_exif (fresh_extractor\<lparr>metadataFilePath := None\<rparr>, sample_db_disk)
     = (fresh_extractor\<lparr>metadataFilePath := None\<rparr>, sample_db_disk)"
    unfolding e4 [THEN conjunct1] by simp
  from a b c d e show ?thesis by simp
qed

text \<open>
  C9 as stated fails three times. Called with metadata that has neither a location
  nor a capture date, for a key whose record has a location and no full address, the
  function returns before it looks at the database: no geocoding task is enqueued.
  A new record is not persisted when the write of the temporary file fails: the
  database file keeps its old content. And when the database file holds \<open>null\<close>,
  the key does not exist and the metadata has a location, yet nothing is inserted,
  saved or enqueued: \<open>database[key]\<close> throws and the handler logs.
\<close>

theorem savePhotoMetadata_counterexample:
  "get_property sample_db (database_key 7 (Some 0)) = Inr (Some sample_entry) \<and>
   js_truthy (property_of sample_entry ''location'') \<and>
   \<not> js_truthy (property_of sample_entry ''FullAddress'') \<and>
   savePhotoMetadata sample_platform no_load_faults no_save_faults 7 (Some 0) no_exif
     (fresh_extractor, sample_db_disk) = (fresh_extractor, sample_db_disk) \<and>
   geocodingQueue fresh_extractor = [] \<and>
   snd (savePhotoMetadata sample_platform no_load_faults disk_full 7 (Some 0) located_exif
     (fresh_extractor, empty_db_disk)) db_path = Some ''{}'' \<and>
   JSON_parse sample_platform ''null'' = Some JNull \<and>
   get_property JNull (database_key 7 (Some 0)) = Inl TypeError \<and>
   savePhotoMetadata sample_platform no_load_faults no_save_faults 7 (Some 0) located_exif
     (fresh_extractor, null_db_disk) = (fresh_extractor, null_db_disk)"
proof -
  have a: "get_property sample_db (database_key 7 (Some 0)) = Inr (Some sample_entry)"
    by (simp add: sample_db_def database_key_sample get_property_def)
  have b: "js_truthy (property_of sample_entry ''location'')"
    "\<not> js_truthy (property_of sample_entry ''FullAddress'')"
    by (simp_all add: sample_entry_fields js_truthy_def)
  have c: "savePhotoMetadata sample_platform no_load_faults no_save_faults 7 (Some 0) no_exif
     (fresh_extractor, sample_db_disk) = (fresh_extractor, sample_db_disk)"
    by (simp add: savePhotoMetadata_def no_exif_def truthy_def fresh_extractor_def)
  have d: "geocodingQueue fresh_extractor = []" by (simp add: fresh_extractor_def)
  have p: "metadataFilePath fresh_extractor = Some db_path" by (simp add: fresh_extractor_def)
  have t: "exif_location located_exif = Some ''51.121669, 13.772767''"
    by (simp add: located_exif_def no_exif_def)
  have f: "temp_write_fails disk_full" by (simp add: disk_full_def no_save_faults_def)
  have "snd (savePhotoMetadata sample_platform no_load_faults disk_full 7 (Some 0) located_exif
     (fresh_extractor, empty_db_disk)) db_path = empty_db_disk db_path"
    unfolding savePhotoMetadata_cases
    by (simp add: p t f truthy_def load_empty_db_disk saveMetadataDatabase_main)
  then have e: "snd (savePhotoMetadata sample_platform no_load_faults disk_full 7 (Some 0) located_exif
     (fresh_extractor, empty_db_disk)) db_path = Some ''{}''"
    by (simp add: empty_db_disk_def)
  have g: "JSON_parse sample_platform ''null'' = Some JNull"
    by (simp add: sample_platform_def sample_text_def)
  have h: "get_property JNull (database_key 7 (Some 0)) = Inl TypeError"
    by (simp add: get_property_def)
  have i: "savePhotoMetadata sample_platform no_load_faults no_save_faults 7 (Some 0) located_exif
     (fresh_extractor, null_db_disk) = (fresh_extractor, null_db_disk)"
    unfolding savePhotoMetadata_cases
    by (simp add: p t truthy_def load_null_db_disk)
  from a b c d e g h i show ?thesis by simp
qed


subsection \<open>Geocoding queue\<close>

text \<open>
  On every path of \<open>reverseGeocode\<close> that records the time of the request the rate
  limit holds: when all answers are of that kind, the requests issued by one drain of
  the queue keep the minimum distance of 5000 ms, whatever the tasks and whatever
  fails on the disk.
\<close>

lemma spaced_snoc:
  "spaced ts \<Longrightarrow> (ts = [] \<or> last ts + geocodingRateLimitMs \<le> c) \<Longrightarrow> spaced (ts @ [c])"
  by (induction ts rule: spaced.induct) auto

lemma reverseGeocode_rate_limited:
  assumes "rate_limited (x, w)" and "records_time (snd reply)" and "0 \<le> fst reply"
    and "reverseGeocode reply (x, w) = (r, x', w')"
  shows "rate_limited (x', w')"
proof -
  let ?c = "if clock w - lastGeocodingRequestTime x < geocodingRateLimitMs
            then lastGeocodingRequestTime x + geocodingRateLimitMs else clock w"
  have calls: "nominatim_calls w' = nominatim_calls w @ [?c]"
    using assms(4)
    by (auto simp: reverseGeocode_def Let_def split: geo_response.splits if_splits)
  have stamp: "lastGeocodingRequestTime x' = ?c + fst reply"
    using assms(2,4)
    by (auto simp: reverseGeocode_def Let_def records_time_def split: geo_response.splits if_splits)
  have "lastGeocodingRequestTime x + geocodingRateLimitMs \<le> ?c" by auto
  with assms(1) have "nominatim_calls w = [] \<or> last (nominatim_calls w) + geocodingRateLimitMs \<le> ?c"
    by (auto simp: rate_limited_def)
  with assms(1) have "spaced (nominatim_calls w @ [?c])"
    by (auto simp: rate_limited_def intro: spaced_snoc)
  with calls stamp assms(3) show ?thesis by (simp add: rate_limited_def)
qed

lemma run_task_rate_limited:
  assumes "rate_limited (x, w)" and "records_time (snd reply)" and "0 \<le> fst reply"
  shows "rate_limited (run_task pl lf sf reply task (x, w))"
proof -
  obtain r x' w' where e: "reverseGeocode reply (x, w) = (r, x', w')"
    by (metis prod_cases3)
  from reverseGeocode_rate_limited [OF assms e] have "rate_limited (x', w')" .
  then show ?thesis
    by (cases r) (auto simp: run_task_def e rate_limited_def)
qed

lemma rate_limited_queue: "rate_limited (x\<lparr>geocodingQueue := q\<rparr>, w) = rate_limited (x, w)"
  by (simp add: rate_limited_def)

lemma rate_limited_flag:
  "rate_limited (x\<lparr>isProcessingGeocodingQueue := b\<rparr>, w) = rate_limited (x, w)"
  by (simp add: rate_limited_def)

lemma drain_queue_rate_limited:
  assumes "\<forall>k. records_time (snd (replies k)) \<and> 0 \<le> fst (replies k)"
  shows "rate_limited state \<Longrightarrow> rate_limited (drain_queue pl lf sf replies tasks state)"
proof (induction tasks arbitrary: state)
  case Nil
  then show ?case by simp
next
  case (Cons task rest)
  obtain x w where s: "state = (x, w)" by (cases state)
  with Cons.prems have "rate_limited (x\<lparr>geocodingQueue := rest\<rparr>, w)"
    by (simp add: rate_limited_queue)
  then have "rate_limited (run_task pl lf sf (replies (length (nominatim_calls w))) task
      (x\<lparr>geocodingQueue := rest\<rparr>, w))"
    using assms by (intro run_task_rate_limited) auto
  from Cons.IH [OF this] show ?case by (simp add: s)
qed

lemma processGeocodingQueue_rate_limited:
  assumes "\<forall>k. records_time (snd (replies k)) \<and> 0 \<le> fst (replies k)"
    and "rate_limited state"
  shows "rate_limited (processGeocodingQueue pl lf sf replies state)"
proof -
  obtain x w where s: "state = (x, w)" by (cases state)
  show ?thesis
  proof (cases "isProcessingGeocodingQueue x")
    case True
    with assms(2) s show ?thesis by (simp add: processGeocodingQueue_def)
  next
    case False
    from assms(2) s have "rate_limited (x\<lparr>isProcessingGeocodingQueue := True\<rparr>, w)"
      by (simp add: rate_limited_flag)
    from drain_queue_rate_limited [OF assms(1) this, of pl lf sf "geocodingQueue x"]
    show ?thesis using False s
      by (auto simp: processGeocodingQueue_def rate_limited_flag split: prod.splits)
  qed
qed

text \<open>
  C3, evaluated. Three tasks are in the queue of a fresh extractor, and the service
  answers each request after 100 ms with a payload that has neither an error nor a
  display name. \<open>reverseGeocode\<close> then never records the time of a request, no task
  waits, and the three requests are issued 100 ms apart, not 5000 ms. With a service
  that answers 4xx instead, the time is recorded and consecutive requests are 5100 ms
  apart.
\<close>

theorem geocoding_spacing_broken:
  "nominatim_calls (snd (processGeocodingQueue sample_platform no_load_faults no_save_faults
      nameless_replies (three_tasks, start_world)))
     = [1700000000000, 1700000000100, 1700000000200] \<and>
   nominatim_calls (snd (processGeocodingQueue sample_platform no_load_faults no_save_faults
      refused_replies (three_tasks, start_world)))
     = [1700000000000, 1700000005100, 1700000010200]"
  by (simp add: processGeocodingQueue_def three_tasks_def fresh_extractor_def start_world_def
        nameless_replies_def refused_replies_def run_task_def reverseGeocode_def
        geocodingRateLimitMs_def truthy_def Let_def)

end
